theory Spec2Isabelle
  imports Main "HOL-Library.Sublist" "HOL-Library.AList" "HOL-Library.Word"
begin

section \<open>Strings\<close>

text \<open>
  A JavaScript string is a sequence of UTF-16 code units; \<open>length\<close>, \<open>slice\<close>,
  \<open>endsWith\<close> and a regular expression without the \<open>u\<close> flag all work on code units.
  The model uses \<^typ>\<open>string\<close>, one \<^typ>\<open>char\<close> for one code unit, which covers the
  code units below 256. No function of the program treats a code unit above that range
  specially, except that the regular-expression atoms \<open>.\<close>, \<open>^\<close> and \<open>$\<close> also take
  U+2028 and U+2029 for line terminators.
\<close>

definition endsWith :: "string \<Rightarrow> string \<Rightarrow> bool" where
  \<comment> \<open>\<open>s.endsWith(t)\<close>\<close>
  "endsWith s t = suffix t s"

definition slice_to_minus1 :: "string \<Rightarrow> string" where
  \<comment> \<open>\<open>s.slice(0, -1)\<close>: all but the last code unit, the empty string stays empty\<close>
  "slice_to_minus1 s = take (length s - 1) s"

definition slice_from :: "string \<Rightarrow> nat \<Rightarrow> string" where
  \<comment> \<open>\<open>s.slice(n)\<close> for \<open>n \<ge> 0\<close>\<close>
  "slice_from s n = drop n s"

definition isSlash :: "char \<Rightarrow> bool" where
  "isSlash c = (c = CHR ''/'')"

text \<open>
  \<open>s.replace(/\/+/g, '/')\<close>: scanning from the left, every maximal run of one or more
  slashes is matched and replaced by a single slash; every other code unit is copied.
\<close>

function replace_slash_runs :: "string \<Rightarrow> string" where
  "replace_slash_runs [] = []"
| "replace_slash_runs (c # cs) =
     (if isSlash c then CHR ''/'' # replace_slash_runs (dropWhile isSlash cs)
      else c # replace_slash_runs cs)"
  by pat_completeness auto
termination
  by (relation "measure length") (auto simp: less_Suc_eq_le length_dropWhile_le)

text \<open>
  \<open>s.replace(pat, rep)\<close> with a string pattern: the first occurrence of \<open>pat\<close> is
  replaced, the rest of \<open>s\<close> is kept. The replacement strings the program passes hold no
  \<open>$\<close>, so the \<open>$\<close>-patterns of JavaScript replacement strings never apply.
\<close>

fun js_replace :: "string \<Rightarrow> string \<Rightarrow> string \<Rightarrow> string" where
  "js_replace pat rep [] = (if pat = [] then rep else [])"
| "js_replace pat rep (c # cs) =
     (if prefix pat (c # cs) then rep @ drop (length pat) (c # cs)
      else c # js_replace pat rep cs)"

section \<open>Edge request gate (server)\<close>

text \<open>
  The fields of the Express request the two handlers read: \<open>req.method\<close>,
  \<open>req.path\<close> and \<open>req.url\<close>. Express derives \<open>req.path\<close> from \<open>req.url\<close>; for a
  request in origin form, \<open>req.url\<close> is \<open>req.path\<close> followed by the query string
  (empty, or starting with a question mark).
\<close>

record request =
  "method" :: string
  path :: string
  url :: string

text \<open>\<open>process.env\<close>: a variable is a string, or \<open>undefined\<close> when it is not set.\<close>

record process_env =
  PRIMARY_REGION :: "string option"
  FLY_REGION :: "string option"

text \<open>The response under construction: its headers, as \<open>res.set\<close> leaves them.\<close>

type_synonym response = "(string \<times> string) list"

definition res_set :: "string \<Rightarrow> string \<Rightarrow> response \<Rightarrow> response" where
  "res_set field val res = AList.update field val res"

text \<open>
  What a handler does with a request: it calls \<open>next()\<close>, or it ends the chain with
  \<open>res.redirect(status, target)\<close> or \<open>res.sendStatus(status)\<close>.
\<close>

datatype outcome =
    Next response
  | Redirect nat string response
  | SendStatus nat response

text \<open>A line on the console: the object \<open>console.info('Replaying', logInfo)\<close> prints.\<close>

record logInfo =
  log_pathname :: string
  log_method :: string
  log_PRIMARY_REGION :: "string option"
  log_FLY_REGION :: "string option"

definition truthy :: "string option \<Rightarrow> bool" where
  \<comment> \<open>JavaScript truthiness of a string or \<open>undefined\<close>: the empty string is falsy\<close>
  "truthy v = (case v of None \<Rightarrow> False | Some s \<Rightarrow> s \<noteq> [])"

definition template :: "string option \<Rightarrow> string" where
  \<comment> \<open>a value interpolated into a template literal\<close>
  "template v = (case v of None \<Rightarrow> ''undefined'' | Some s \<Rightarrow> s)"

definition stamp :: "process_env \<Rightarrow> response \<Rightarrow> response" where
  \<comment> \<open>the two \<open>res.set\<close> calls of the first handler; \<open>60 * 60 * 24 * 365 * 100 = 3153600000\<close>\<close>
  "stamp env res =
     res_set ''Strict-Transport-Security'' ''max-age=3153600000''
       (res_set ''x-fly-region''
          (case FLY_REGION env of None \<Rightarrow> ''unknown'' | Some r \<Rightarrow> r) res)"

definition trailingSlash :: "process_env \<Rightarrow> request \<Rightarrow> response \<Rightarrow> outcome" where
  \<comment> \<open>the first handler, \<open>app.use((req, res, next) => ...)\<close>\<close>
  "trailingSlash env req res =
     (let res' = stamp env res in
      if endsWith (path req) ''/'' \<and> length (path req) > 1 then
        let query = slice_from (url req) (length (path req));
            safepath = replace_slash_runs (slice_to_minus1 (path req))
        in Redirect 301 (safepath @ query) res'
      else Next res')"

definition isMethodReplayable :: "request \<Rightarrow> bool" where
  "isMethodReplayable req = (method req \<notin> set [''GET'', ''OPTIONS'', ''HEAD''])"

definition isReadOnlyRegion :: "process_env \<Rightarrow> bool" where
  "isReadOnlyRegion env =
     (truthy (FLY_REGION env) \<and> truthy (PRIMARY_REGION env)
      \<and> FLY_REGION env \<noteq> PRIMARY_REGION env)"

definition getReplaceResponse ::
  "process_env \<Rightarrow> request \<Rightarrow> response \<Rightarrow> outcome \<times> logInfo list" where
  \<comment> \<open>the second handler, \<open>app.all('*', function getReplaceResponse ...)\<close>\<close>
  "getReplaceResponse env req res =
     (let shouldReply = isMethodReplayable req \<and> isReadOnlyRegion env in
      if \<not> shouldReply then (Next res, [])
      else
        (SendStatus 409
           (res_set ''fly-replay'' (''region='' @ template (PRIMARY_REGION env)) res),
         [\<lparr>log_pathname = path req, log_method = method req,
           log_PRIMARY_REGION = PRIMARY_REGION env, log_FLY_REGION = FLY_REGION env\<rparr>]))"

text \<open>
  The handlers are registered in this order: the trailing-slash handler, the replay
  gate, \<open>compression()\<close>, the two \<open>express.static\<close> handlers, \<open>morgan\<close> and the Remix
  request handler. The last five are library code: the model takes them as parameters.
  Express runs the handlers in registration order until one does not call \<open>next()\<close>.

  A handler registered with \<open>app.use(handler)\<close> or \<open>app.all('*', handler)\<close> runs for every
  path. The one registered with \<open>app.use('/build', handler)\<close> runs only for a path that
  is \<open>/build\<close> or lies below it; Express compares a mount path without regard to the
  case of the letters A to Z. The handler parameters are given the request as it came.
\<close>

definition asciiLower :: "char \<Rightarrow> char" where
  "asciiLower c =
     (if (65 :: nat) \<le> of_char c \<and> of_char c \<le> (90 :: nat)
      then char_of (of_char c + (32 :: nat)) else c)"

definition mountedAt :: "string \<Rightarrow> request \<Rightarrow> bool" where
  "mountedAt mount req =
     (let p = map asciiLower (path req) in p = mount \<or> prefix (mount @ ''/'') p)"

definition everyPath :: "request \<Rightarrow> bool" where
  "everyPath req = True"

datatype handler_id =
  TrailingSlash | ReplayGate | Compression | StaticBuild | StaticPublic | Morgan | RemixHandler

type_synonym handler = "request \<Rightarrow> response \<Rightarrow> outcome \<times> logInfo list"

record library_handlers =
  compression :: handler
  static_build :: handler
  static_public :: handler
  morgan :: handler
  remix :: handler

fun run_chain ::
  "(handler_id \<times> (request \<Rightarrow> bool) \<times> handler) list \<Rightarrow> request \<Rightarrow> response
     \<Rightarrow> handler_id list \<times> outcome \<times> logInfo list" where
  "run_chain [] req res = ([], Next res, [])"
| "run_chain ((n, matches, h) # hs) req res =
     (if \<not> matches req then run_chain hs req res
      else
        (case h req res of
           (Next res', l) \<Rightarrow>
             (case run_chain hs req res' of (ids, out, l') \<Rightarrow> (n # ids, out, l @ l'))
         | (out, l) \<Rightarrow> ([n], out, l)))"

definition app ::
  "process_env \<Rightarrow> library_handlers \<Rightarrow> (handler_id \<times> (request \<Rightarrow> bool) \<times> handler) list" where
  "app env lib =
     [(TrailingSlash, everyPath, \<lambda>req res. (trailingSlash env req res, [])),
      (ReplayGate, everyPath, getReplaceResponse env),
      (Compression, everyPath, compression lib),
      (StaticBuild, mountedAt ''/build'', static_build lib),
      (StaticPublic, everyPath, static_public lib),
      (Morgan, everyPath, morgan lib),
      (RemixHandler, everyPath, remix lib)]"

definition handle ::
  "process_env \<Rightarrow> library_handlers \<Rightarrow> request \<Rightarrow> handler_id list \<times> outcome \<times> logInfo list" where
  \<comment> \<open>one request through the whole chain, starting from a response without headers\<close>
  "handle env lib req = run_chain (app env lib) req []"

section \<open>Scaffold initializer (remix.init)\<close>

subsection \<open>Errors, console and external commands\<close>

text \<open>
  A thrown JavaScript error, or the reason of a rejected promise: its name, its message and
  the property \<open>isTtyError\<close> that \<open>main\<close> inspects (\<open>undefined\<close> reads as false).
\<close>

datatype js_error = JsError (error_name: string) (error_message: string) (isTtyError: bool)

definition TypeError :: "string \<Rightarrow> js_error" where
  "TypeError msg = JsError ''TypeError'' msg False"

definition ENOENT :: "string \<Rightarrow> js_error" where
  "ENOENT msg = JsError ''ENOENT'' msg False"

text \<open>What the initializer does to its terminal and to other programs, in order.\<close>

datatype event =
    Asked string \<comment> \<open>a question of \<open>inquirer.prompt\<close> shown and answered, by its name\<close>
  | ConsoleLog string
      \<comment> \<open>\<open>console.log\<close>: the message as it goes to standard output, in UTF-8, without
         the newline that ends it\<close>
  | ExecSync string \<comment> \<open>\<open>execSync(command)\<close>\<close>

text \<open>
  A computation that acts on the terminal: the events it produced, and its value or the
  error it threw. After an error nothing more runs.
\<close>

type_synonym 'a io = "event list \<times> (js_error + 'a)"

definition io_return :: "'a \<Rightarrow> 'a io" where
  "io_return x = ([], Inr x)"

definition io_throw :: "js_error \<Rightarrow> 'a io" where
  "io_throw e = ([], Inl e)"

definition io_bind :: "'a io \<Rightarrow> ('a \<Rightarrow> 'b io) \<Rightarrow> 'b io" where
  "io_bind m k =
     (case m of
        (evs, Inl e) \<Rightarrow> (evs, Inl e)
      | (evs, Inr x) \<Rightarrow> (case k x of (evs', r) \<Rightarrow> (evs @ evs', r)))"

definition dquote :: string where
  \<comment> \<open>the double quote, code unit 34\<close>
  "dquote = [CHR 0x22]"

text \<open>
  The semantic version \<open>pnpm --version\<close> prints, as major, minor and patch number;
  \<open>semver.lt\<close> and \<open>semver.gte\<close> compare release versions in lexicographic order.
\<close>

type_synonym version = "nat \<times> nat \<times> nat"

fun semver_lt :: "version \<Rightarrow> version \<Rightarrow> bool" where
  "semver_lt (a, b, c) (x, y, z) = (a < x \<or> (a = x \<and> (b < y \<or> (b = y \<and> c < z))))"

definition semver_gte :: "version \<Rightarrow> version \<Rightarrow> bool" where
  "semver_gte v w = (\<not> semver_lt v w)"

text \<open>
  The world outside the initializer. The libraries \<open>yaml\<close> and \<open>@npmcli/package-json\<close>
  are not part of this repository: their parsers and printers, and the way
  \<open>packageJson.update\<close> merges what it is given into the manifest, are parameters.
\<close>

record question =
  q_name :: string
  q_default :: bool

record job =
  needs :: "string list option" \<comment> \<open>\<open>None\<close>: the job has no list \<open>needs\<close>\<close>
  job_other :: string

record workflow =
  jobs :: "(string \<times> job) list option"
  workflow_other :: string

record package_json =
  pj_name :: string
  devDependencies :: "(string \<times> string) list option"
  scripts :: "(string \<times> string) list option"
  pj_other :: string

text \<open>
  The object \<open>updatePackageJson\<close> hands to \<open>packageJson.update\<close>: the three properties
  of the object literal, in its order. A property of \<open>scripts\<close> may hold \<open>undefined\<close>
  (\<open>None\<close>), and \<open>devDependencies\<close> itself may be \<open>undefined\<close>.
\<close>

record update_content =
  u_name :: string
  u_devDependencies :: "(string \<times> string) list option"
  u_scripts :: "(string \<times> string option) list"

record world =
  user :: "string \<Rightarrow> js_error + bool option"
    \<comment> \<open>the answer to a question, by its name: \<open>None\<close> accepts the default; or the error
       that rejects the prompt at this question\<close>
  execResult :: "string \<Rightarrow> js_error option"
    \<comment> \<open>a command run by \<open>execSync\<close>: the error it throws (a non-zero exit), if any\<close>
  versionOutput :: "string \<Rightarrow> js_error + version"
    \<comment> \<open>what \<open>execSync(`${packageManager} --version`)\<close> prints, read as a version, or
       the error it throws\<close>
  entropy :: "nat \<Rightarrow> 8 word"
    \<comment> \<open>the bytes \<open>crypto.randomBytes\<close> delivers, in order\<close>
  YAML_parse :: "string \<Rightarrow> js_error + workflow"
  YAML_stringify :: "workflow \<Rightarrow> string"
  PackageJson_parse :: "string \<Rightarrow> js_error + package_json"
  PackageJson_update :: "package_json \<Rightarrow> update_content \<Rightarrow> js_error + package_json"
    \<comment> \<open>\<open>packageJson.update(content)\<close>: the manifest's new content, or the error thrown\<close>
  PackageJson_stringify :: "package_json \<Rightarrow> string"

definition console_log :: "string \<Rightarrow> unit io" where
  "console_log s = ([ConsoleLog s], Inr ())"

definition execInProject :: "world \<Rightarrow> string \<Rightarrow> unit io" where
  \<comment> \<open>\<open>execSync(command, { cwd: rootDirectory, stdio: 'inherit' })\<close>\<close>
  "execInProject w command =
     ([ExecSync command], case execResult w command of None \<Rightarrow> Inr () | Some e \<Rightarrow> Inl e)"

subsection \<open>Package-manager command set\<close>

datatype package_manager = npm | pnpm | yarn

text \<open>
  The object \<open>getPackageManagerCommand\<close> returns. A property the object literal does not
  have reads as \<open>undefined\<close>: \<open>None\<close>. The argument \<open>args\<close> may be \<open>undefined\<close>.
\<close>

record command_set =
  exec :: "string option"
  lockfile :: "string option"
  run :: "(string \<Rightarrow> string option \<Rightarrow> string) option"
  install :: "(string \<Rightarrow> string option \<Rightarrow> string) option"

definition dashdash_args :: "string option \<Rightarrow> string" where
  \<comment> \<open>\<open>args ? `-- ${args}` : ''\<close>\<close>
  "dashdash_args args = (if truthy args then ''-- '' @ template args else [])"

definition args_or_empty :: "string option \<Rightarrow> string" where
  \<comment> \<open>\<open>args || ''\<close> and \<open>args ? args : ''\<close>\<close>
  "args_or_empty args = (if truthy args then template args else [])"

definition getPackageManagerVersion :: "world \<Rightarrow> string \<Rightarrow> version io" where
  "getPackageManagerVersion w packageManager =
     ([ExecSync (packageManager @ '' --version'')], versionOutput w packageManager)"

definition getPackageManagerCommand :: "world \<Rightarrow> package_manager \<Rightarrow> command_set io" where
  "getPackageManagerCommand w packageManager =
     (case packageManager of
        npm \<Rightarrow> io_return
          \<lparr>exec = Some ''npx'',
           lockfile = Some ''package-lock.json'',
           run = Some (\<lambda>script args. ''npm run '' @ script @ '' '' @ dashdash_args args),
           install = Some (\<lambda>name args. ''npm install '' @ args_or_empty args @ '' '' @ name)\<rparr>
      | pnpm \<Rightarrow>
          io_bind (getPackageManagerVersion w ''pnpm'') (\<lambda>pnpmVersion.
            let includeDoubleDashBeforeArgs = semver_lt pnpmVersion (7, 0, 0);
                useExec = semver_gte pnpmVersion (6, 13, 0)
            in io_return
              \<lparr>exec = Some (if useExec then ''pnpm exec'' else ''pnpx''),
               lockfile = Some ''pnpm-lock.yaml'',
               run = Some (\<lambda>script args.
                 if includeDoubleDashBeforeArgs
                 then ''pnpm run '' @ script @ '' '' @ dashdash_args args
                 else ''pnpm run '' @ script @ '' '' @ args_or_empty args),
               install = None\<rparr>)
      | yarn \<Rightarrow> io_return
          \<lparr>exec = Some ''yarn'',
           lockfile = Some ''yarn.lock'',
           run = Some (\<lambda>script args. ''yarn '' @ script @ '' '' @ args_or_empty args),
           install = None\<rparr>)"

definition call_method ::
  "string \<Rightarrow> (string \<Rightarrow> string option \<Rightarrow> string) option \<Rightarrow> string \<Rightarrow> string option
     \<Rightarrow> string io" where
  \<comment> \<open>\<open>pm.run(...)\<close>, \<open>pm.install(...)\<close>: calling \<open>undefined\<close> throws a TypeError\<close>
  "call_method what f x args =
     (case f of
        None \<Rightarrow> io_throw (TypeError (what @ '' is not a function''))
      | Some g \<Rightarrow> io_return (g x args))"

subsection \<open>The interactive flow\<close>

text \<open>
  \<open>inquirer.prompt(questions)\<close> asks every question of the list, in order (no question
  here has a \<open>when\<close> condition), and resolves to the answers by name.
\<close>

fun prompt :: "world \<Rightarrow> question list \<Rightarrow> (string \<times> bool) list io" where
  "prompt w [] = io_return []"
| "prompt w (q # qs) =
     (case user w (q_name q) of
        Inl e \<Rightarrow> io_throw e
      | Inr a \<Rightarrow>
          io_bind ([Asked (q_name q)], Inr ()) (\<lambda>_.
          io_bind (prompt w qs) (\<lambda>rest.
          io_return ((q_name q, case a of None \<Rightarrow> q_default q | Some b \<Rightarrow> b) # rest))))"

definition answer :: "(string \<times> bool) list \<Rightarrow> string \<Rightarrow> bool" where
  \<comment> \<open>\<open>answers.name\<close>, as a condition\<close>
  "answer answers n = (map_of answers n = Some True)"

definition installAmplify :: "world \<Rightarrow> command_set \<Rightarrow> (string \<times> bool) list \<Rightarrow> unit io" where
  \<comment> \<open>the body of \<open>if (answers.amplify)\<close>\<close>
  "installAmplify w pm answers =
     io_bind
       (if answer answers ''cli'' then
          io_bind (console_log ''Installing CLI globally'') (\<lambda>_.
          io_bind (call_method ''pm.install'' (install pm) ''@aws-amplify/cli'' (Some ''-g''))
            (execInProject w))
        else io_return ()) (\<lambda>_.
     io_bind (console_log ''Installing amplify in project'') (\<lambda>_.
     io_bind (call_method ''pm.install'' (install pm) ''aws-amplify'' None) (\<lambda>command.
     io_bind (execInProject w command) (\<lambda>_.
     io_bind (console_log ''Amplify npm package has been installed.'') (\<lambda>_.
     io_bind (console_log ''In order to proceed, you will need an AWS account. If you do not have one, you will be able to create one.'') (\<lambda>_.
     io_bind (execInProject w ''npx amplify configure'') (\<lambda>_.
     io_bind (console_log ''Initializing amplify project'') (\<lambda>_.
     execInProject w ''npx amplify init''))))))))"

definition readyMark :: string where
  \<comment> \<open>the start of the last message: a newline, the three characters U+00E2, U+0153 and
     U+2026 that stand before \<open>Project is ready!\<close> in the source file, in UTF-8, and two
     spaces\<close>
  "readyMark = [CHR 0x0A, CHR 0xC3, CHR 0xA2, CHR 0xC5, CHR 0x93, CHR 0xE2, CHR 0x80, CHR 0xA6,
                CHR 0x20, CHR 0x20]"

definition askSetupQuestions :: "world \<Rightarrow> package_manager \<Rightarrow> unit io" where
  "askSetupQuestions w packageManager =
     io_bind (prompt w [\<lparr>q_name = ''amplify'', q_default = False\<rparr>,
                        \<lparr>q_name = ''cli'', q_default = True\<rparr>]) (\<lambda>answers.
     io_bind (getPackageManagerCommand w packageManager) (\<lambda>pm.
     io_bind (if answer answers ''amplify'' then installAmplify w pm answers
              else io_return ()) (\<lambda>_.
     io_bind (prompt w [\<lparr>q_name = ''validate'', q_default = False\<rparr>]) (\<lambda>validationAnswers.
     io_bind
       (if answer validationAnswers ''validate'' then
          io_bind (console_log ''Running the validate script to make sure everything was set up properly'') (\<lambda>_.
          io_bind (call_method ''pm.run'' (run pm) ''validate'' None) (execInProject w))
        else io_return ()) (\<lambda>_.
     io_bind (call_method ''pm.run'' (run pm) ''dev'' None) (\<lambda>dev.
     console_log (readyMark @ ''Project is ready! Start development with '' @ dquote @ dev
       @ dquote)))))))"

subsection \<open>Derived names and rewritten contents\<close>

definition lineTerminator :: "char \<Rightarrow> bool" where
  \<comment> \<open>line feed and carriage return, the line terminators among the code units below 256\<close>
  "lineTerminator c = (c = CHR 0x0A \<or> c = CHR 0x0D)"

text \<open>
  \<open>s.replace(/^key.*$/m, rep)\<close> for a literal \<open>key\<close>: the first position at the start
  of a line (\<open>bol\<close>) where \<open>key\<close> begins is matched up to the end of that line (\<open>.\<close>
  stops at a line terminator, \<open>$\<close> holds before one and at the end of the input), and
  the match is replaced by \<open>rep\<close>. Without a match the string is returned as it is.
\<close>

fun replace_first_line :: "string \<Rightarrow> string \<Rightarrow> bool \<Rightarrow> string \<Rightarrow> string" where
  "replace_first_line key rep bol [] = []"
| "replace_first_line key rep bol (c # cs) =
     (if bol \<and> prefix key (c # cs)
      then rep @ dropWhile (\<lambda>x. \<not> lineTerminator x) (drop (length key) (c # cs))
      else c # replace_first_line key rep (lineTerminator c) cs)"

text \<open>
  \<open>s.replace(new RegExp(pat, 'g'), rep)\<close> for a pattern of ordinary characters: every
  occurrence found scanning from the left, without overlap, is replaced.
\<close>

function js_replace_all :: "string \<Rightarrow> string \<Rightarrow> string \<Rightarrow> string" where
  "js_replace_all pat rep [] = []"
| "js_replace_all pat rep (c # cs) =
     (if pat \<noteq> [] \<and> prefix pat (c # cs)
      then rep @ js_replace_all pat rep (drop (length pat) (c # cs))
      else c # js_replace_all pat rep cs)"
  by pat_completeness auto
termination
  by (relation "measure (\<lambda>(pat, rep, s). length s)") (auto simp: neq_Nil_conv)

definition hexDigit :: "nat \<Rightarrow> char" where
  "hexDigit n = ''0123456789abcdef'' ! (n mod 16)"

definition toHex :: "8 word list \<Rightarrow> string" where
  \<comment> \<open>\<open>buffer.toString('hex')\<close>: two lower-case digits for each byte\<close>
  "toHex bytes = concat (map (\<lambda>b. [hexDigit (unat b div 16), hexDigit (unat b mod 16)]) bytes)"

definition randomBytes :: "world \<Rightarrow> nat \<Rightarrow> 8 word list" where
  "randomBytes w n = map (entropy w) [0..<n]"

definition getRandomString :: "world \<Rightarrow> nat \<Rightarrow> string" where
  "getRandomString w len = toHex (randomBytes w len)"

definition newEnv :: "world \<Rightarrow> string \<Rightarrow> string" where
  "newEnv w env =
     replace_first_line ''SESSION_SECRET=''
       (''SESSION_SECRET='' @ dquote @ getRandomString w 16 @ dquote) True env"

definition basename :: "string \<Rightarrow> string" where
  \<comment> \<open>\<open>path.basename\<close> of Node on POSIX: the last segment, trailing slashes ignored\<close>
  "basename p = rev (takeWhile (\<lambda>c. \<not> isSlash c) (dropWhile isSlash (rev p)))"

definition inRange :: "char \<Rightarrow> char \<Rightarrow> char \<Rightarrow> bool" where
  \<comment> \<open>a class range \<open>lo-hi\<close>: by code unit\<close>
  "inRange lo hi c = ((of_char lo :: nat) \<le> of_char c \<and> (of_char c :: nat) \<le> of_char hi)"

definition appNameClass :: "char \<Rightarrow> bool" where
  \<comment> \<open>the class \<open>[a-zA-Z0-9-_]\<close>\<close>
  "appNameClass c =
     (inRange CHR ''a'' CHR ''z'' c \<or> inRange CHR ''A'' CHR ''Z'' c
      \<or> inRange CHR ''0'' CHR ''9'' c \<or> c = CHR ''-'' \<or> c = CHR ''_'')"

fun replace_not_in_class :: "string \<Rightarrow> string" where
  \<comment> \<open>\<open>s.replace(/[^a-zA-Z0-9-_]/g, '-')\<close>\<close>
  "replace_not_in_class [] = []"
| "replace_not_in_class (c # cs) =
     (if \<not> appNameClass c then CHR ''-'' # replace_not_in_class cs
      else c # replace_not_in_class cs)"

definition APP_NAME :: "string \<Rightarrow> string" where
  "APP_NAME rootDirectory = replace_not_in_class (basename rootDirectory)"

definition removeUnusedDependencies ::
  "(string \<times> string) list \<Rightarrow> string list \<Rightarrow> (string \<times> string) list" where
  "removeUnusedDependencies dependencies unusedDependencies =
     filter (\<lambda>(key, v). key \<notin> set unusedDependencies) dependencies"

definition defined :: "string \<times> string \<Rightarrow> string \<times> string option" where
  \<comment> \<open>a property copied by the spread \<open>...scripts\<close>\<close>
  "defined entry = (fst entry, Some (snd entry))"

text \<open>
  The argument of \<open>packageJson.update\<close>. The destructuring throws when the manifest has
  no \<open>scripts\<close>; \<open>typecheck\<close> and \<open>validate\<close> are the values of those two scripts, or
  \<open>undefined\<close>; \<open>rest\<close> holds the other scripts, in their order. In the non-typed
  variant \<open>Object.entries\<close> throws when there are no dev dependencies, and
  \<open>validate.replace\<close> throws when there is no script \<open>validate\<close>.
\<close>

definition updateContent :: "string \<Rightarrow> bool \<Rightarrow> package_json \<Rightarrow> js_error + update_content" where
  "updateContent appName isTypeScript content =
     (case scripts content of
        None \<Rightarrow> Inl (TypeError ''Cannot destructure property typecheck of undefined'')
      | Some allScripts \<Rightarrow>
          let typecheck = map_of allScripts ''typecheck'';
              validate = map_of allScripts ''validate'';
              rest = filter (\<lambda>(key, v). key \<noteq> ''typecheck'' \<and> key \<noteq> ''validate'') allScripts
          in
          if isTypeScript then
            Inr \<lparr>u_name = appName,
                 u_devDependencies = devDependencies content,
                 u_scripts = map defined rest
                               @ [(''typecheck'', typecheck), (''validate'', validate)]\<rparr>
          else
            (case devDependencies content of
               None \<Rightarrow> Inl (TypeError ''Cannot convert undefined or null to object'')
             | Some deps \<Rightarrow>
                 (case validate of
                    None \<Rightarrow> Inl (TypeError ''Cannot read properties of undefined (reading replace)'')
                  | Some v \<Rightarrow>
                      Inr \<lparr>u_name = appName,
                           u_devDependencies = Some (removeUnusedDependencies deps [''ts-node'']),
                           u_scripts = map defined rest
                                         @ [(''validate'', Some (js_replace '' typecheck'' [] v))]\<rparr>)))"

definition updatePackageJson ::
  "world \<Rightarrow> string \<Rightarrow> bool \<Rightarrow> package_json \<Rightarrow> js_error + package_json" where
  \<comment> \<open>the manifest's content after \<open>packageJson.update({ ... })\<close>\<close>
  "updatePackageJson w appName isTypeScript content =
     (case updateContent appName isTypeScript content of
        Inl e \<Rightarrow> Inl e
      | Inr u \<Rightarrow> PackageJson_update w content u)"

subsection \<open>Files\<close>

text \<open>
  The files below \<open>rootDirectory\<close>, each under its path relative to that directory (the
  list of its segments), with its text. A directory is there when a file lies below it.
  \<open>denied\<close> lists the paths at which writing, copying to and removing fail for a reason
  the model does not hold (permissions, a missing parent directory).
\<close>

type_synonym path = "string list"

record filesystem =
  files :: "(path \<times> string) list"
  denied :: "path list"

datatype file_op =
    WriteFile path string \<comment> \<open>\<open>fs.writeFile(path, data)\<close>\<close>
  | CopyFile path path \<comment> \<open>\<open>fs.copyFile(src, dest)\<close>\<close>
  | Rm path bool \<comment> \<open>\<open>fs.rm(path)\<close>, \<open>fs.rm(path, { recursive: true })\<close>\<close>

definition readFile :: "filesystem \<Rightarrow> path \<Rightarrow> js_error + string" where
  "readFile fs p =
     (case map_of (files fs) p of
        None \<Rightarrow> Inl (ENOENT ''no such file or directory'')
      | Some s \<Rightarrow> Inr s)"

definition EACCES :: js_error where
  "EACCES = JsError ''EACCES'' ''permission denied'' False"

definition below :: "path \<Rightarrow> (path \<times> string) \<Rightarrow> bool" where
  \<comment> \<open>the entry is the path itself or lies below it\<close>
  "below p entry = prefix p (fst entry)"

definition apply_op :: "filesystem \<Rightarrow> file_op \<Rightarrow> js_error + filesystem" where
  "apply_op fs op =
     (case op of
        WriteFile p s \<Rightarrow>
          if p \<in> set (denied fs) then Inl EACCES
          else Inr (fs\<lparr>files := AList.update p s (files fs)\<rparr>)
      | CopyFile src dest \<Rightarrow>
          (case map_of (files fs) src of
             None \<Rightarrow> Inl (ENOENT ''no such file or directory'')
           | Some s \<Rightarrow>
               if dest \<in> set (denied fs) then Inl EACCES
               else Inr (fs\<lparr>files := AList.update dest s (files fs)\<rparr>))
      | Rm p recursive \<Rightarrow>
          if \<not> list_ex (below p) (files fs) then Inl (ENOENT ''no such file or directory'')
          else if p \<in> set (denied fs) then Inl EACCES
          else if recursive then Inr (fs\<lparr>files := filter (\<lambda>e. \<not> below p e) (files fs)\<rparr>)
          else if map_of (files fs) p = None
            then Inl (JsError ''ERR_FS_EISDIR'' ''Path is a directory'' False)
          else Inr (fs\<lparr>files := AList.delete p (files fs)\<rparr>))"

text \<open>
  The file operations are started when the array of promises is built, and each runs to
  its end whatever the others do: every operation is applied, a failed one leaves the
  files as they are. The operations of \<open>main\<close> touch different paths, and the files
  they leave do not depend on the order in which they complete (lemma
  \<open>operations_in_any_order\<close> below): they are applied here in the order of the array.
  The result holds the files and, for each operation, how its promise settled.
\<close>

fun start_all :: "file_op list \<Rightarrow> filesystem \<Rightarrow> filesystem \<times> js_error option list" where
  "start_all [] fs = (fs, [])"
| "start_all (op # ops) fs =
     (case apply_op fs op of
        Inl e \<Rightarrow> (case start_all ops fs of (fs', rs) \<Rightarrow> (fs', Some e # rs))
      | Inr fs1 \<Rightarrow> (case start_all ops fs1 of (fs', rs) \<Rightarrow> (fs', None # rs)))"

definition Promise_all :: "js_error option list \<Rightarrow> js_error + unit" where
  \<comment> \<open>rejects with the reason of a rejected promise, here the first of the array\<close>
  "Promise_all rs = (case List.find (\<lambda>r. r \<noteq> None) rs of Some (Some e) \<Rightarrow> Inl e | _ \<Rightarrow> Inr ())"

definition try_await_all :: "js_error option list \<Rightarrow> js_error + unit" where
  \<comment> \<open>\<open>try { await Promise.all(fileOperationPromises); } catch (error) { }\<close>\<close>
  "try_await_all rs = (case Promise_all rs of Inl error \<Rightarrow> Inr () | Inr u \<Rightarrow> Inr u)"

subsection \<open>The initializer\<close>

definition and_then :: "js_error + 'a \<Rightarrow> ('a \<Rightarrow> js_error + 'b) \<Rightarrow> js_error + 'b" where
  "and_then r k = (case r of Inl e \<Rightarrow> Inl e | Inr x \<Rightarrow> k x)"

definition EXAMPLE_ENV_PATH :: path where "EXAMPLE_ENV_PATH = [''.env.example'']"
definition ENV_PATH :: path where "ENV_PATH = [''.env'']"
definition README_PATH :: path where "README_PATH = [''README.md'']"
definition DEPLOY_WORKFLOW_PATH :: path where
  "DEPLOY_WORKFLOW_PATH = [''.github'', ''workflows'', ''deploy.yml'']"
definition REMIX_CONFIG_PATH :: path where "REMIX_CONFIG_PATH = [''remix.config.js'']"
definition VITEST_CONFIG_PATH :: "bool \<Rightarrow> path" where
  "VITEST_CONFIG_PATH isTypeScript = [''vitest.config.'' @ (if isTypeScript then ''ts'' else ''js'')]"
definition PACKAGE_JSON_PATH :: path where
  \<comment> \<open>the file \<open>PackageJson.load(rootDirectory)\<close> reads and \<open>packageJson.save()\<close> writes\<close>
  "PACKAGE_JSON_PATH = [''package.json'']"

definition readFileIfNotTypeScript ::
  "bool \<Rightarrow> filesystem \<Rightarrow> path \<Rightarrow> (string \<Rightarrow> js_error + 'a) \<Rightarrow> js_error + 'a option" where
  "readFileIfNotTypeScript isTypeScript fs filePath parseFunction =
     (if isTypeScript then Inr None
      else and_then (readFile fs filePath) (\<lambda>s.
           and_then (parseFunction s) (\<lambda>x. Inr (Some x))))"

definition cleanupDeployWorkflow :: "world \<Rightarrow> workflow option \<Rightarrow> path \<Rightarrow> js_error + file_op list" where
  "cleanupDeployWorkflow w deployWorkflow deployWorkflowPath =
     (case deployWorkflow of
        None \<Rightarrow> Inl (TypeError ''Cannot read properties of undefined (reading jobs)'')
      | Some flow \<Rightarrow>
     (case jobs flow of
        None \<Rightarrow> Inl (TypeError ''Cannot convert undefined or null to object'')
      | Some js \<Rightarrow>
          let js1 = AList.delete ''typecheck'' js in
          (case map_of js1 ''deploy'' of
             None \<Rightarrow> Inl (TypeError ''Cannot read properties of undefined (reading needs)'')
           | Some deploy \<Rightarrow>
               (case needs deploy of
                  None \<Rightarrow> Inl (TypeError ''deployWorkflow.jobs.deploy.needs.filter is not a function'')
                | Some ns \<Rightarrow>
                    let deploy1 = deploy\<lparr>needs := Some (filter (\<lambda>need. need \<noteq> ''typecheck'') ns)\<rparr>;
                        flow1 = flow\<lparr>jobs := Some (AList.update ''deploy'' deploy1 js1)\<rparr>
                    in Inr [WriteFile deployWorkflowPath (YAML_stringify w flow1)]))))"

definition cleanupRemixConfig :: "string option \<Rightarrow> path \<Rightarrow> js_error + file_op list" where
  "cleanupRemixConfig remixConfig remixConfigPath =
     (case remixConfig of
        None \<Rightarrow> Inl (TypeError ''Cannot read properties of undefined (reading replace)'')
      | Some c \<Rightarrow>
          let newRemixConfig =
                js_replace ''create-user.ts'' ''create-user.js''
                  (js_replace ''server.ts'' ''server.js'' c)
          in Inr [WriteFile remixConfigPath newRemixConfig])"

definition cleanupVitestConfig :: "string option \<Rightarrow> path \<Rightarrow> js_error + file_op list" where
  "cleanupVitestConfig vitestConfig vitestConfigPath =
     (case vitestConfig of
        None \<Rightarrow> Inl (TypeError ''Cannot read properties of undefined (reading replace)'')
      | Some c \<Rightarrow>
          let newVitestConfig = js_replace ''setup-test-env.ts'' ''setup-test-env.js'' c
          in Inr [WriteFile vitestConfigPath newVitestConfig])"

text \<open>What \<open>main\<close> has read and computed when it builds \<open>fileOperationPromises\<close>.\<close>

record template_files =
  t_env :: string
  t_readme :: string
  t_deployWorkflow :: "workflow option"
  t_remixConfig :: "string option"
  t_vitestConfig :: "string option"
  t_packageJson :: package_json

definition readTemplateFiles :: "world \<Rightarrow> bool \<Rightarrow> filesystem \<Rightarrow> js_error + template_files" where
  \<comment> \<open>the first \<open>await Promise.all([...])\<close>: six reads, rejected when one of them fails\<close>
  "readTemplateFiles w isTypeScript fs =
     and_then (readFile fs EXAMPLE_ENV_PATH) (\<lambda>env.
     and_then (readFile fs README_PATH) (\<lambda>readme.
     and_then (readFileIfNotTypeScript isTypeScript fs DEPLOY_WORKFLOW_PATH (YAML_parse w))
       (\<lambda>deployWorkflow.
     and_then (readFileIfNotTypeScript isTypeScript fs REMIX_CONFIG_PATH Inr) (\<lambda>remixConfig.
     and_then (readFileIfNotTypeScript isTypeScript fs (VITEST_CONFIG_PATH isTypeScript) Inr)
       (\<lambda>vitestConfig.
     and_then (and_then (readFile fs PACKAGE_JSON_PATH) (PackageJson_parse w)) (\<lambda>packageJson.
     Inr \<lparr>t_env = env, t_readme = readme, t_deployWorkflow = deployWorkflow,
          t_remixConfig = remixConfig, t_vitestConfig = vitestConfig,
          t_packageJson = packageJson\<rparr>))))))"

definition fileOperationPromises ::
  "world \<Rightarrow> string \<Rightarrow> template_files \<Rightarrow> package_json \<Rightarrow> file_op list" where
  \<comment> \<open>the seven operations of the array literal\<close>
  "fileOperationPromises w appName t packageJson =
     [WriteFile ENV_PATH (newEnv w (t_env t)),
      WriteFile README_PATH (js_replace_all ''RemixStack'' appName (t_readme t)),
      WriteFile PACKAGE_JSON_PATH (PackageJson_stringify w packageJson),
      CopyFile [''remix.init'', ''gitignore''] [''.gitignore''],
      Rm [''.github'', ''ISSUE_TEMPLATE''] True,
      Rm [''.github'', ''dependabot.yml''] False,
      Rm [''.github'', ''PULL_REQUEST_TEMPLATE.md''] False]"

definition cleanupOperations ::
  "world \<Rightarrow> bool \<Rightarrow> template_files \<Rightarrow> file_op list \<times> js_error option" where
  \<comment> \<open>the three \<open>push\<close> calls of \<open>if (!isTypeScript)\<close>: the operations pushed, and the
     error that ended the block early, if any\<close>
  "cleanupOperations w isTypeScript t =
     (if isTypeScript then ([], None)
      else
        (case cleanupDeployWorkflow w (t_deployWorkflow t) DEPLOY_WORKFLOW_PATH of
           Inl e \<Rightarrow> ([], Some e)
         | Inr ops1 \<Rightarrow>
        (case cleanupRemixConfig (t_remixConfig t) REMIX_CONFIG_PATH of
           Inl e \<Rightarrow> (ops1, Some e)
         | Inr ops2 \<Rightarrow>
        (case cleanupVitestConfig (t_vitestConfig t) (VITEST_CONFIG_PATH isTypeScript) of
           Inl e \<Rightarrow> (ops1 @ ops2, Some e)
         | Inr ops3 \<Rightarrow> (ops1 @ ops2 @ ops3, None)))))"

definition catch_tty :: "unit io \<Rightarrow> unit io" where
  \<comment> \<open>\<open>.catch((error) => { if (error.isTtyError) { } else { throw error; } })\<close>\<close>
  "catch_tty m =
     (case m of
        (evs, Inl error) \<Rightarrow> if isTtyError error then (evs, Inr ()) else (evs, Inl error)
      | (evs, Inr u) \<Rightarrow> (evs, Inr u))"

text \<open>
  \<open>main\<close>, from the files it finds to the files it leaves, the events on the terminal and
  its result: \<open>Inr ()\<close> when the promise it returns is fulfilled, \<open>Inl error\<close> when it is
  rejected. What the external commands do to the files is not part of the model.
\<close>

definition main ::
  "world \<Rightarrow> bool \<Rightarrow> package_manager \<Rightarrow> string \<Rightarrow> filesystem
     \<Rightarrow> filesystem \<times> event list \<times> (js_error + unit)" where
  "main w isTypeScript packageManager rootDirectory fs =
     (case readTemplateFiles w isTypeScript fs of
        Inl e \<Rightarrow> (fs, [], Inl e)
      | Inr t \<Rightarrow>
     (case updatePackageJson w (APP_NAME rootDirectory) isTypeScript (t_packageJson t) of
        Inl e \<Rightarrow> (fs, [], Inl e)
      | Inr packageJson \<Rightarrow>
          let started = fileOperationPromises w (APP_NAME rootDirectory) t packageJson in
          (case cleanupOperations w isTypeScript t of
             (pushed, Some e) \<Rightarrow> (fst (start_all (started @ pushed) fs), [], Inl e)
           | (pushed, None) \<Rightarrow>
               (case start_all (started @ pushed) fs of
                  (fs', settled) \<Rightarrow>
                    (case try_await_all settled of
                       Inl e \<Rightarrow> (fs', [], Inl e)
                     | Inr u \<Rightarrow>
                         (case catch_tty (askSetupQuestions w packageManager) of
                            (evs, r) \<Rightarrow> (fs', evs, r)))))))"

section \<open>Reference definitions and example inputs\<close>

text \<open>
  The canonical path as the specification words it: all trailing separators stripped, then
  every run of separators collapsed to one. Collapsing is written here without the regular
  expression of the code: a separator that stands before another separator is dropped.
\<close>

definition strip_trailing_slashes :: "string \<Rightarrow> string" where
  "strip_trailing_slashes p = rev (dropWhile isSlash (rev p))"

fun collapse_repeated :: "string \<Rightarrow> string" where
  "collapse_repeated (a # b # cs) =
     (if a = CHR ''/'' \<and> b = CHR ''/'' then collapse_repeated (b # cs)
      else a # collapse_repeated (b # cs))"
| "collapse_repeated cs = cs"

definition canonical_spec :: "string \<Rightarrow> string" where
  "canonical_spec p = collapse_repeated (strip_trailing_slashes p)"

text \<open>Library handlers that pass every request on, and a renderer that answers 200.\<close>

definition lib_pass :: library_handlers where
  "lib_pass = \<lparr>compression = (\<lambda>req res. (Next res, [])),
     static_build = (\<lambda>req res. (Next res, [])),
     static_public = (\<lambda>req res. (Next res, [])),
     morgan = (\<lambda>req res. (Next res, [])),
     remix = (\<lambda>req res. (SendStatus 200 res, []))\<rparr>"

definition env_unset :: process_env where
  "env_unset = \<lparr>PRIMARY_REGION = None, FLY_REGION = None\<rparr>"

definition env_secondary :: process_env where
  "env_secondary = \<lparr>PRIMARY_REGION = Some ''iad'', FLY_REGION = Some ''lhr''\<rparr>"

definition env_empty_region :: process_env where
  "env_empty_region = \<lparr>PRIMARY_REGION = Some ''iad'', FLY_REGION = Some []\<rparr>"

definition post_widgets :: request where
  "post_widgets = \<lparr>method = ''POST'', path = ''/api/widgets'', url = ''/api/widgets''\<rparr>"

definition post_widgets_slash :: request where
  "post_widgets_slash = \<lparr>method = ''POST'', path = ''/api/widgets/'', url = ''/api/widgets/''\<rparr>"

definition get_posts_page2 :: request where
  "get_posts_page2 = \<lparr>method = ''GET'', path = ''/posts/'', url = ''/posts/?page=2''\<rparr>"

definition get_posts_2slashes :: request where
  "get_posts_2slashes = \<lparr>method = ''GET'', path = ''/posts//'', url = ''/posts//''\<rparr>"

text \<open>
  A request whose target came in absolute form, \<open>GET http://h/posts/?q=1\<close>: \<open>req.url\<close>
  is the target as it was sent, \<open>req.path\<close> is the path parsed from it.
\<close>

definition get_posts_absolute :: request where
  "get_posts_absolute =
     \<lparr>method = ''GET'', path = ''/posts/'', url = ''http://h/posts/?q=1''\<rparr>"

text \<open>
  The error \<open>inquirer\<close> rejects with when the terminal is not interactive, which carries
  \<open>isTtyError\<close>, and the error of a prompt the user closed, which does not.
\<close>

definition tty_error :: js_error where
  "tty_error = JsError ''Error''
     ''Prompts can not be meaningfully rendered in non-TTY environments'' True"

definition cancel_error :: js_error where
  "cancel_error = JsError ''ExitPromptError'' ''User force closed the prompt'' False"

text \<open>A small template project and a world around it, with the user as a parameter.\<close>

definition example_manifest :: package_json where
  "example_manifest =
     \<lparr>pj_name = ''remix-stack'',
      devDependencies = Some [(''eslint'', ''^8.0.0''), (''ts-node'', ''^10.7.0''),
                              (''typescript'', ''^4.6.0'')],
      scripts = Some [(''build'', ''remix build''),
                      (''lint'', ''eslint .''),
                      (''typecheck'', ''tsc -b''),
                      (''validate'', ''run-p lint typecheck test'')],
      pj_other = ''private''\<rparr>"

definition example_workflow :: workflow where
  "example_workflow =
     \<lparr>jobs = Some [(''lint'', \<lparr>needs = None, job_other = ''eslint''\<rparr>),
                   (''typecheck'', \<lparr>needs = None, job_other = ''tsc''\<rparr>),
                   (''deploy'', \<lparr>needs = Some [''lint'', ''typecheck''], job_other = ''fly''\<rparr>)],
      workflow_other = ''on push''\<rparr>"


text \<open>
  A manifest library for the examples: \<open>update\<close> stores the name, the dev dependencies
  and the scripts it is given, and rejects a script whose value is \<open>undefined\<close>. The
  examples hand it dev dependencies that are not empty and are in alphabetical order, so
  that a library which also sorts them, and drops an empty object, stores the same.
\<close>

fun given_scripts :: "(string \<times> string option) list \<Rightarrow> (string \<times> string) list option" where
  "given_scripts [] = Some []"
| "given_scripts ((key, None) # es) = None"
| "given_scripts ((key, Some v) # es) =
     (case given_scripts es of None \<Rightarrow> None | Some es' \<Rightarrow> Some ((key, v) # es'))"

definition example_update :: "package_json \<Rightarrow> update_content \<Rightarrow> js_error + package_json" where
  "example_update content u =
     (case given_scripts (u_scripts u) of
        None \<Rightarrow> Inl (TypeError ''script values must be strings'')
      | Some s \<Rightarrow>
          Inr (content\<lparr>pj_name := u_name u, devDependencies := u_devDependencies u,
                 scripts := Some s\<rparr>))"

definition example_world :: "(string \<Rightarrow> js_error + bool option) \<Rightarrow> world" where
  "example_world u =
     \<lparr>user = u, execResult = (\<lambda>c. None), versionOutput = (\<lambda>name. Inr (8, 6, 0)),
      entropy = (\<lambda>i. of_nat (17 * i + 3)),
      YAML_parse = (\<lambda>s. Inr example_workflow),
      YAML_stringify = (\<lambda>y. ''deploy workflow''),
      PackageJson_parse = (\<lambda>s. Inr example_manifest),
      PackageJson_update = example_update,
      PackageJson_stringify = pj_name\<rparr>"

definition example_files :: filesystem where
  "example_files =
     \<lparr>files =
        [([''.env.example''], ''SESSION_SECRET=old''),
         ([''README.md''], ''RemixStack''),
         ([''package.json''], ''manifest''),
         ([''remix.init'', ''gitignore''], ''node_modules''),
         ([''.github'', ''ISSUE_TEMPLATE'', ''bug_report.yml''], ''bug''),
         ([''.github'', ''dependabot.yml''], ''updates''),
         ([''.github'', ''workflows'', ''deploy.yml''], ''jobs''),
         ([''remix.config.js''], ''server.ts''),
         ([''vitest.config.js''], ''setup-test-env.ts'')],
      denied = [[''README.md'']]\<rparr>"

text \<open>
  A user who declines Amplify and the validation run and takes the default for the CLI
  question, and one who accepts Amplify and the global CLI.
\<close>

definition user_declines :: "string \<Rightarrow> js_error + bool option" where
  "user_declines q = (if q = ''cli'' then Inr None else Inr (Some False))"

definition user_accepts :: "string \<Rightarrow> js_error + bool option" where
  "user_accepts q = (if q = ''validate'' then Inr None else Inr (Some True))"

text \<open>
  Reading a string of hexadecimal digits back into bytes, two digits for a byte, the high
  digit first.
\<close>

definition hexValue :: "char \<Rightarrow> nat" where
  "hexValue c =
     (if (97 :: nat) \<le> of_char c then of_char c - (87 :: nat) else of_char c - (48 :: nat))"

fun fromHex :: "string \<Rightarrow> 8 word list" where
  "fromHex (a # b # cs) = of_nat (16 * hexValue a + hexValue b) # fromHex cs"
| "fromHex cs = []"

text \<open>The class \<open>[A-Za-z0-9-_]\<close> of the specification, written out.\<close>

definition app_name_alphabet :: string where
  "app_name_alphabet =
     ''abcdefghijklmnopqrstuvwxyzABCDEFGHIJKLMNOPQRSTUVWXYZ0123456789-_''"

text \<open>An environment file of three lines.\<close>

definition example_env :: string where
  "example_env = ''PORT=3000'' @ [CHR 0x0A] @ ''SESSION_SECRET=super-duper-s3cret'' @ [CHR 0x0A]
     @ ''NODE_ENV=development''"

subsection \<open>What the file operations leave behind\<close>

text \<open>
  One operation run to its end: the files after it, unchanged when it fails.
\<close>

definition settle :: "file_op \<Rightarrow> filesystem \<Rightarrow> filesystem" where
  "settle op fs = (case apply_op fs op of Inl e \<Rightarrow> fs | Inr fs' \<Rightarrow> fs')"

text \<open>
  The effect of an operation that succeeded: the file holds the text written, the copy
  equals its source, the path removed is gone.
\<close>

definition effect :: "filesystem \<Rightarrow> file_op \<Rightarrow> bool" where
  "effect fs op =
     (case op of
        WriteFile p s \<Rightarrow> map_of (files fs) p = Some s
      | CopyFile src dest \<Rightarrow>
          map_of (files fs) src \<noteq> None \<and> map_of (files fs) dest = map_of (files fs) src
      | Rm p recursive \<Rightarrow>
          if recursive then \<not> list_ex (below p) (files fs) else map_of (files fs) p = None)"

text \<open>
  An operation has nothing left to do on these files: running it fails, or changes nothing.
\<close>

definition in_place :: "filesystem \<Rightarrow> file_op \<Rightarrow> bool" where
  "in_place fs op =
     (case op of
        WriteFile p s \<Rightarrow> p \<in> set (denied fs) \<or> map_of (files fs) p = Some s
      | CopyFile src dest \<Rightarrow>
          map_of (files fs) src = None \<or> dest \<in> set (denied fs)
          \<or> map_of (files fs) dest = map_of (files fs) src
      | Rm p recursive \<Rightarrow>
          \<not> list_ex (below p) (files fs) \<or> p \<in> set (denied fs)
          \<or> (\<not> recursive \<and> map_of (files fs) p = None))"

text \<open>
  \<open>changes op q\<close>: the operation can change the file at \<open>q\<close>; \<open>changes_below op r\<close>: it
  can change a file at or below \<open>r\<close>. \<open>separate op op'\<close>: \<open>op'\<close> changes nothing that
  \<open>op\<close> reads or writes. In an independent list no operation is disturbed by a later one.
\<close>

definition changes :: "file_op \<Rightarrow> path \<Rightarrow> bool" where
  "changes op q =
     (case op of
        WriteFile p s \<Rightarrow> q = p
      | CopyFile src dest \<Rightarrow> q = dest
      | Rm p recursive \<Rightarrow> if recursive then prefix p q else q = p)"

definition changes_below :: "file_op \<Rightarrow> path \<Rightarrow> bool" where
  "changes_below op r =
     (case op of
        WriteFile p s \<Rightarrow> prefix r p
      | CopyFile src dest \<Rightarrow> prefix r dest
      | Rm p recursive \<Rightarrow> prefix r p \<or> prefix p r)"

definition separate :: "file_op \<Rightarrow> file_op \<Rightarrow> bool" where
  "separate op op' =
     (case op of
        WriteFile p s \<Rightarrow> \<not> changes op' p
      | CopyFile src dest \<Rightarrow> \<not> changes op' src \<and> \<not> changes op' dest
      | Rm p recursive \<Rightarrow> \<not> changes_below op' p)"

fun independent :: "file_op list \<Rightarrow> bool" where
  "independent [] = True"
| "independent (op # ops) = (list_all (separate op) ops \<and> independent ops)"

text \<open>
  Whether an operation succeeds on these files, and what a successful one leaves at a
  path it changes. The operations of a list are apart when they are different and none
  changes what another reads or writes.
\<close>

definition succeeds :: "file_op \<Rightarrow> filesystem \<Rightarrow> bool" where
  "succeeds op fs = (case apply_op fs op of Inl e \<Rightarrow> False | Inr fs' \<Rightarrow> True)"

definition written :: "file_op \<Rightarrow> filesystem \<Rightarrow> string option" where
  "written op fs =
     (case op of
        WriteFile p s \<Rightarrow> Some s
      | CopyFile src dest \<Rightarrow> map_of (files fs) src
      | Rm p recursive \<Rightarrow> None)"

definition apart :: "file_op list \<Rightarrow> bool" where
  "apart ops = (distinct ops \<and> (\<forall>a\<in>set ops. \<forall>b\<in>set ops. a \<noteq> b \<longrightarrow> separate a b))"

text \<open>What \<open>main\<close> reads from the example project in the non-typed variant, and the
  operations it then starts.\<close>

definition example_template_plain :: template_files where
  "example_template_plain =
     \<lparr>t_env = ''SESSION_SECRET=old'', t_readme = ''RemixStack'',
      t_deployWorkflow = Some example_workflow,
      t_remixConfig = Some ''server.ts'', t_vitestConfig = Some ''setup-test-env.ts'',
      t_packageJson = example_manifest\<rparr>"

definition example_operations :: "file_op list" where
  "example_operations =
     [WriteFile [''.env'']
        (''SESSION_SECRET='' @ dquote @ ''031425364758697a8b9cadbecfe0f102'' @ dquote),
      WriteFile [''README.md''] ''my-app'',
      WriteFile [''package.json''] ''my-app'',
      CopyFile [''remix.init'', ''gitignore''] [''.gitignore''],
      Rm [''.github'', ''ISSUE_TEMPLATE''] True,
      Rm [''.github'', ''dependabot.yml''] False,
      Rm [''.github'', ''PULL_REQUEST_TEMPLATE.md''] False,
      WriteFile [''.github'', ''workflows'', ''deploy.yml''] ''deploy workflow'',
      WriteFile [''remix.config.js''] ''server.js'',
      WriteFile [''vitest.config.js''] ''setup-test-env.js'']"

section \<open>The edge request gate: properties\<close>

subsection \<open>Collapsing runs of separators\<close>

lemma dropWhile_isSlash_last:
  "\<not> isSlash (last cs) \<Longrightarrow> cs \<noteq> [] \<Longrightarrow>
   dropWhile isSlash cs \<noteq> [] \<and> last (dropWhile isSlash cs) = last cs
   \<and> dropWhile isSlash (cs @ ys) = dropWhile isSlash cs @ ys"
  by (induction cs) auto

lemma replace_slash_runs_append:
  "xs = [] \<or> \<not> isSlash (last xs) \<Longrightarrow>
   replace_slash_runs (xs @ ys) = replace_slash_runs xs @ replace_slash_runs ys"
proof (induction xs rule: replace_slash_runs.induct)
  case 1
  then show ?case by simp
next
  case (2 c cs)
  show ?case
  proof (cases "isSlash c")
    case True
    with 2(3) have ne: "cs \<noteq> []" and nl: "\<not> isSlash (last cs)"
      by (auto split: if_splits)
    have d: "last (dropWhile isSlash cs) = last cs"
      "dropWhile isSlash (cs @ ys) = dropWhile isSlash cs @ ys"
      using dropWhile_isSlash_last [OF nl ne] by auto
    have "replace_slash_runs (dropWhile isSlash cs @ ys)
          = replace_slash_runs (dropWhile isSlash cs) @ replace_slash_runs ys"
      using 2(1) [OF True] d(1) nl by simp
    with d(2) True show ?thesis by simp
  next
    case False
    with 2(2) [OF False] 2(3) show ?thesis by (cases cs) auto
  qed
qed

lemma replace_slash_runs_replicate:
  "replace_slash_runs (replicate n CHR ''/'') = (if n = 0 then [] else ''/'')"
proof (cases n)
  case 0
  then show ?thesis by simp
next
  case (Suc m)
  have "dropWhile isSlash (replicate m CHR ''/'') = []"
    by (simp add: isSlash_def)
  with Suc show ?thesis by (simp add: isSlash_def)
qed

lemma strip_trailing_slashes_decomp:
  "\<exists>k. p = strip_trailing_slashes p @ replicate k CHR ''/''
     \<and> (strip_trailing_slashes p = [] \<or> \<not> isSlash (last (strip_trailing_slashes p)))"
proof -
  have "rev p = takeWhile isSlash (rev p) @ dropWhile isSlash (rev p)" by simp
  moreover have "takeWhile isSlash (rev p) = replicate (length (takeWhile isSlash (rev p))) CHR ''/''"
    by (rule replicate_eqI) (auto simp: isSlash_def dest: set_takeWhileD)
  ultimately have "rev p = replicate (length (takeWhile isSlash (rev p))) CHR ''/'' @ dropWhile isSlash (rev p)"
    by simp
  then have "p = rev (dropWhile isSlash (rev p)) @ replicate (length (takeWhile isSlash (rev p))) CHR ''/''"
    by (metis rev_append rev_replicate rev_rev_ident)
  moreover have "dropWhile isSlash (rev p) = [] \<or> \<not> isSlash (hd (dropWhile isSlash (rev p)))"
    by (metis hd_dropWhile)
  then have "strip_trailing_slashes p = [] \<or> \<not> isSlash (last (strip_trailing_slashes p))"
    by (auto simp: strip_trailing_slashes_def last_rev)
  ultimately show ?thesis unfolding strip_trailing_slashes_def by blast
qed

lemma collapse_repeated_slash:
  "collapse_repeated (CHR ''/'' # cs) = CHR ''/'' # collapse_repeated (dropWhile isSlash cs)"
proof (induction cs)
  case Nil
  show ?case by simp
next
  case (Cons c cs)
  then show ?case by (cases "c = CHR ''/''") (simp_all add: isSlash_def)
qed

text \<open>The regular expression of the code collapses as the specification words it.\<close>

lemma replace_slash_runs_collapse: "replace_slash_runs s = collapse_repeated s"
proof (induction s rule: replace_slash_runs.induct)
  case 1
  show ?case by simp
next
  case (2 c cs)
  show ?case
  proof (cases "isSlash c")
    case True
    with 2(1) show ?thesis by (simp add: isSlash_def collapse_repeated_slash)
  next
    case False
    with 2(2) show ?thesis by (cases cs) (simp_all add: isSlash_def)
  qed
qed

lemma safepath_char:
  assumes "endsWith p ''/''"
  shows "replace_slash_runs (slice_to_minus1 p)
         = canonical_spec p @ (if endsWith p ''//'' then ''/'' else [])"
proof -
  obtain k where p: "p = strip_trailing_slashes p @ replicate k CHR ''/''"
    and q: "strip_trailing_slashes p = [] \<or> \<not> isSlash (last (strip_trailing_slashes p))"
    using strip_trailing_slashes_decomp by blast
  define q where "q = strip_trailing_slashes p"
  from assms p have k: "k > 0"
    using q by (cases k) (auto simp: endsWith_def suffix_def isSlash_def)
  then obtain m where m: "k = Suc m" by (cases k) auto
  have p': "p = (q @ replicate m CHR ''/'') @ ''/''"
    using p m by (simp add: q_def replicate_append_same)
  have "take (length ((q @ replicate m CHR ''/'') @ ''/'') - 1) ((q @ replicate m CHR ''/'') @ ''/'')
        = q @ replicate m CHR ''/''"
    by simp
  with p' have sl: "slice_to_minus1 p = q @ replicate m CHR ''/''"
    unfolding slice_to_minus1_def by simp
  have e: "endsWith p ''//'' \<longleftrightarrow> m > 0"
  proof (cases m)
    case 0
    have "\<not> suffix ''/'' q"
      using q unfolding q_def [symmetric] by (auto simp: suffix_def isSlash_def)
    then have "\<not> suffix (''/'' @ ''/'') (q @ ''/'')"
      unfolding snoc_suffix_snoc by simp
    with 0 p' show ?thesis by (simp add: endsWith_def)
  next
    case (Suc j)
    have "replicate j CHR ''/'' @ ''//'' = replicate (Suc (Suc j)) CHR ''/''"
      by (induction j) auto
    then have "p = (q @ replicate j CHR ''/'') @ ''//''"
      using p m Suc by (simp add: q_def)
    then have "suffix ''//'' p" unfolding suffix_def by blast
    with Suc show ?thesis by (simp add: endsWith_def)
  qed
  have "canonical_spec p = replace_slash_runs q"
    by (simp add: canonical_spec_def q_def replace_slash_runs_collapse)
  then show ?thesis
    using replace_slash_runs_append [OF q, of "replicate m CHR ''/''"] sl e
    by (simp add: q_def replace_slash_runs_replicate)
qed

text \<open>
  After collapsing, the code units other than the separator are the same, in the same
  order, and no two separators are adjacent.
\<close>

lemma replace_slash_runs_keeps_others:
  "filter (\<lambda>c. \<not> isSlash c) (replace_slash_runs s) = filter (\<lambda>c. \<not> isSlash c) s"
proof (induction s rule: replace_slash_runs.induct)
  case 1
  then show ?case by simp
next
  case (2 c cs)
  have "filter (\<lambda>c. \<not> isSlash c) (dropWhile isSlash cs) = filter (\<lambda>c. \<not> isSlash c) cs"
    by (induction cs) auto
  with 2 show ?case by (auto simp: isSlash_def)
qed

lemma replace_slash_runs_hd:
  "replace_slash_runs s \<noteq> [] \<Longrightarrow> isSlash (hd (replace_slash_runs s)) \<Longrightarrow> s \<noteq> [] \<and> isSlash (hd s)"
  by (cases s) (auto simp: isSlash_def split: if_splits)

lemma replace_slash_runs_no_run:
  "replace_slash_runs s \<noteq> a @ ''//'' @ b"
proof (induction s arbitrary: a rule: replace_slash_runs.induct)
  case 1
  then show ?case by simp
next
  case (2 c cs)
  show ?case
  proof
    assume e: "replace_slash_runs (c # cs) = a @ ''//'' @ b"
    show False
    proof (cases "isSlash c")
      case True
      let ?r = "replace_slash_runs (dropWhile isSlash cs)"
      from e True have e': "CHR ''/'' # ?r = a @ ''//'' @ b" by simp
      show False
      proof (cases a)
        case Nil
        with e' have "?r \<noteq> []" "isSlash (hd ?r)" by (auto simp: isSlash_def)
        then have "dropWhile isSlash cs \<noteq> [] \<and> isSlash (hd (dropWhile isSlash cs))"
          by (rule replace_slash_runs_hd)
        then show False by (metis hd_dropWhile)
      next
        case (Cons x a')
        with e' have "?r = a' @ ''//'' @ b" by simp
        with 2(1) [OF True] show False by blast
      qed
    next
      case False
      with e have e': "c # replace_slash_runs cs = a @ ''//'' @ b" by simp
      show False
      proof (cases a)
        case Nil
        with e' False show False by (simp add: isSlash_def)
      next
        case (Cons x a')
        with e' have "replace_slash_runs cs = a' @ ''//'' @ b" by simp
        with 2(2) [OF False] show False by blast
      qed
    qed
  qed
qed

lemma endsWith_eval: "endsWith s t = prefix (rev t) (rev s)"
  by (simp add: endsWith_def suffix_to_prefix)

subsection \<open>The chain of handlers\<close>

lemma trailingSlash_Next_iff:
  "trailingSlash env req res = Next r \<longleftrightarrow>
   r = stamp env res \<and> \<not> (endsWith (path req) ''/'' \<and> length (path req) > 1)"
  by (auto simp: trailingSlash_def Let_def)

lemma handle_unfold:
  "handle env lib req =
     (case trailingSlash env req [] of
        Next r \<Rightarrow>
          (case getReplaceResponse env req r of
             (Next r', l) \<Rightarrow>
               (case run_chain (drop 2 (app env lib)) req r' of
                  (ids, out, l') \<Rightarrow> (TrailingSlash # ReplayGate # ids, out, l @ l'))
           | (out, l) \<Rightarrow> ([TrailingSlash, ReplayGate], out, l))
      | out \<Rightarrow> ([TrailingSlash], out, []))"
  by (simp add: handle_def app_def everyPath_def split: outcome.splits prod.splits)

subsection \<open>The replay gate\<close>

text \<open>
  Claim C1, as the code has it. The replay gate answers 409 with the header
  \<open>fly-replay: region=<primary region>\<close> exactly when the method is none of GET, HEAD
  and OPTIONS and the current and the primary region are both set to a non-empty string
  and differ. In every other case it calls \<open>next()\<close> with the response untouched and logs
  nothing. When the gate answers a request that reached it, the handlers that ran are the
  trailing-slash handler and the gate: no static handler, whatever the library handlers do.
\<close>

theorem replay_gate_fires_iff:
  "((\<exists>p. PRIMARY_REGION env = Some p \<and>
         fst (getReplaceResponse env req res)
           = SendStatus 409 (res_set ''fly-replay'' (''region='' @ p) res))
      \<longleftrightarrow> method req \<notin> {''GET'', ''HEAD'', ''OPTIONS''}
          \<and> (\<exists>f p. FLY_REGION env = Some f \<and> PRIMARY_REGION env = Some p
                \<and> f \<noteq> [] \<and> p \<noteq> [] \<and> f \<noteq> p))
   \<and> (\<not> (method req \<notin> {''GET'', ''HEAD'', ''OPTIONS''}
          \<and> (\<exists>f p. FLY_REGION env = Some f \<and> PRIMARY_REGION env = Some p
                \<and> f \<noteq> [] \<and> p \<noteq> [] \<and> f \<noteq> p))
        \<longrightarrow> getReplaceResponse env req res = (Next res, []))
   \<and> (\<forall>r out l. trailingSlash env req [] = Next r
          \<and> getReplaceResponse env req r = (out, l) \<and> out \<noteq> Next r
        \<longrightarrow> handle env lib req = ([TrailingSlash, ReplayGate], out, l))"
proof (intro conjI allI impI)
  show "(\<exists>p. PRIMARY_REGION env = Some p \<and>
         fst (getReplaceResponse env req res)
           = SendStatus 409 (res_set ''fly-replay'' (''region='' @ p) res))
      \<longleftrightarrow> method req \<notin> {''GET'', ''HEAD'', ''OPTIONS''}
          \<and> (\<exists>f p. FLY_REGION env = Some f \<and> PRIMARY_REGION env = Some p
                \<and> f \<noteq> [] \<and> p \<noteq> [] \<and> f \<noteq> p)"
    by (cases "FLY_REGION env"; cases "PRIMARY_REGION env")
       (auto simp: getReplaceResponse_def isMethodReplayable_def isReadOnlyRegion_def
          truthy_def template_def)
next
  assume "\<not> (method req \<notin> {''GET'', ''HEAD'', ''OPTIONS''}
          \<and> (\<exists>f p. FLY_REGION env = Some f \<and> PRIMARY_REGION env = Some p
                \<and> f \<noteq> [] \<and> p \<noteq> [] \<and> f \<noteq> p))"
  then show "getReplaceResponse env req res = (Next res, [])"
    by (cases "FLY_REGION env"; cases "PRIMARY_REGION env")
       (auto simp: getReplaceResponse_def isMethodReplayable_def isReadOnlyRegion_def
          truthy_def)
next
  fix r out l
  assume a: "trailingSlash env req [] = Next r
          \<and> getReplaceResponse env req r = (out, l) \<and> out \<noteq> Next r"
  then have "\<exists>s. out = SendStatus 409 s"
    by (auto simp: getReplaceResponse_def Let_def split: if_splits)
  with a show "handle env lib req = ([TrailingSlash, ReplayGate], out, l)"
    by (auto simp: handle_unfold)
qed

text \<open>
  The witness: POST \<open>/api/widgets\<close> with current region \<open>lhr\<close> and primary region
  \<open>iad\<close> is answered by the gate with 409 and \<open>fly-replay: region=iad\<close>.
\<close>

theorem replay_gate_fires_iff_witness:
  "method post_widgets \<notin> {''GET'', ''HEAD'', ''OPTIONS''}
   \<and> trailingSlash env_secondary post_widgets [] = Next (stamp env_secondary [])
   \<and> handle env_secondary lib_pass post_widgets
       = ([TrailingSlash, ReplayGate],
          SendStatus 409
            [(''x-fly-region'', ''lhr''), (''Strict-Transport-Security'', ''max-age=3153600000''),
             (''fly-replay'', ''region=iad'')],
          [\<lparr>log_pathname = ''/api/widgets'', log_method = ''POST'',
            log_PRIMARY_REGION = Some ''iad'', log_FLY_REGION = Some ''lhr''\<rparr>])"
  using replay_gate_fires_iff [of env_secondary post_widgets "stamp env_secondary []" lib_pass]
  by (simp add: env_secondary_def post_widgets_def trailingSlash_def stamp_def res_set_def
      endsWith_eval getReplaceResponse_def isMethodReplayable_def isReadOnlyRegion_def
      truthy_def template_def)

text \<open>
  Against C1 as it is worded: with the current region set to the empty string and the
  primary region set to \<open>iad\<close>, both are set and they differ, and a POST passes the gate.
  And a POST to a path with a trailing slash, in a secondary region, never reaches the
  gate: the chain answers it with the redirect.
\<close>

theorem replay_gate_empty_region_counterexample:
  "method post_widgets \<notin> {''GET'', ''HEAD'', ''OPTIONS''}
   \<and> FLY_REGION env_empty_region \<noteq> None \<and> PRIMARY_REGION env_empty_region \<noteq> None
   \<and> FLY_REGION env_empty_region \<noteq> PRIMARY_REGION env_empty_region
   \<and> getReplaceResponse env_empty_region post_widgets [] = (Next [], [])
   \<and> method post_widgets_slash \<notin> {''GET'', ''HEAD'', ''OPTIONS''}
   \<and> handle env_secondary lib_pass post_widgets_slash
       = ([TrailingSlash],
          Redirect 301 ''/api/widgets''
            [(''x-fly-region'', ''lhr''),
             (''Strict-Transport-Security'', ''max-age=3153600000'')], [])"
  by (simp add: env_empty_region_def post_widgets_def getReplaceResponse_def
      isMethodReplayable_def isReadOnlyRegion_def truthy_def handle_unfold
      post_widgets_slash_def env_secondary_def trailingSlash_def stamp_def res_set_def
      endsWith_eval slice_to_minus1_def slice_from_def isSlash_def)


subsection \<open>Trailing-slash normalization\<close>

text \<open>
  Claim C2, as the code has it. A request whose path is longer than one code unit and ends
  in a separator is answered with a 301 redirect, by the first handler of the chain. The
  target is the path without its last code unit, with every run of separators collapsed,
  followed by \<open>req.url\<close> without its first \<open>length (path req)\<close> code units. That path
  is the canonical path of the specification when the request path ends in one separator;
  when it ends in two or more, one separator is left at the end. What follows it is the
  query string as it came whenever \<open>req.url\<close> is the path followed by the query string.
\<close>

theorem trailingSlash_redirects:
  assumes "length (path req) > 1" and "endsWith (path req) ''/''"
  shows "trailingSlash env req res
           = Redirect 301
               (replace_slash_runs (slice_to_minus1 (path req))
                  @ drop (length (path req)) (url req)) (stamp env res)
         \<and> replace_slash_runs (slice_to_minus1 (path req))
           = canonical_spec (path req) @ (if endsWith (path req) ''//'' then ''/'' else [])
         \<and> (\<forall>query. url req = path req @ query \<longrightarrow>
               trailingSlash env req res
                 = Redirect 301
                     (canonical_spec (path req)
                        @ (if endsWith (path req) ''//'' then ''/'' else []) @ query)
                     (stamp env res))
         \<and> handle env lib req
           = ([TrailingSlash],
              Redirect 301
               (replace_slash_runs (slice_to_minus1 (path req))
                  @ drop (length (path req)) (url req)) (stamp env []), [])"
  using assms safepath_char [OF assms(2)]
  by (simp add: handle_unfold trailingSlash_def slice_from_def)

text \<open>The witness: \<open>/posts/?page=2\<close> is redirected to \<open>/posts?page=2\<close>.\<close>

theorem trailingSlash_redirects_witness:
  "length (path get_posts_page2) > 1 \<and> endsWith (path get_posts_page2) ''/''
   \<and> url get_posts_page2 = path get_posts_page2 @ ''?page=2''
   \<and> canonical_spec (path get_posts_page2) = ''/posts''
   \<and> handle env_unset lib_pass get_posts_page2
       = ([TrailingSlash],
          Redirect 301 ''/posts?page=2''
            [(''x-fly-region'', ''unknown''),
             (''Strict-Transport-Security'', ''max-age=3153600000'')], [])"
proof -
  have h: "length (path get_posts_page2) > 1" "endsWith (path get_posts_page2) ''/''"
    by (simp_all add: get_posts_page2_def endsWith_eval)
  have u: "url get_posts_page2 = path get_posts_page2 @ ''?page=2''"
    "canonical_spec (path get_posts_page2) = ''/posts''"
    by (simp_all add: get_posts_page2_def canonical_spec_def strip_trailing_slashes_def
        isSlash_def)
  have "replace_slash_runs (slice_to_minus1 (path get_posts_page2)) = ''/posts''"
    "drop (length (path get_posts_page2)) (url get_posts_page2) = ''?page=2''"
    by (simp_all add: get_posts_page2_def slice_to_minus1_def isSlash_def)
  with trailingSlash_redirects [OF h, of env_unset "[]" lib_pass] h u show ?thesis
    by (simp add: env_unset_def stamp_def res_set_def)
qed

text \<open>
  Against C2 as it is worded. The canonical path of \<open>/posts//\<close> is \<open>/posts\<close>, and the
  request is redirected to \<open>/posts/\<close>. And a request for \<open>http://h/posts/?q=1\<close>, whose
  path is \<open>/posts/\<close> and whose query string is \<open>?q=1\<close>, is redirected to
  \<open>/postsh/posts/?q=1\<close>, not to \<open>/posts?q=1\<close>.
\<close>

theorem trailingSlash_double_slash_counterexample:
  "length (path get_posts_2slashes) > 1 \<and> endsWith (path get_posts_2slashes) ''/''
   \<and> canonical_spec (path get_posts_2slashes) = ''/posts''
   \<and> trailingSlash env_unset get_posts_2slashes []
       = Redirect 301 ''/posts/''
           [(''x-fly-region'', ''unknown''),
            (''Strict-Transport-Security'', ''max-age=3153600000'')]
   \<and> length (path get_posts_absolute) > 1 \<and> endsWith (path get_posts_absolute) ''/''
   \<and> canonical_spec (path get_posts_absolute) = ''/posts''
   \<and> trailingSlash env_unset get_posts_absolute []
       = Redirect 301 ''/postsh/posts/?q=1''
           [(''x-fly-region'', ''unknown''),
            (''Strict-Transport-Security'', ''max-age=3153600000'')]"
  by (simp add: get_posts_2slashes_def get_posts_absolute_def endsWith_eval canonical_spec_def
      strip_trailing_slashes_def isSlash_def trailingSlash_def slice_to_minus1_def
      slice_from_def env_unset_def stamp_def res_set_def)

section \<open>The initializer: properties\<close>

subsection \<open>From the file operations to the interactive flow\<close>

lemma try_await_all_Inr: "try_await_all rs = Inr ()"
  by (simp add: try_await_all_def split: sum.splits)

lemma main_reaches_flow:
  assumes "readTemplateFiles w isTypeScript fs = Inr t"
    and "updatePackageJson w (APP_NAME rootDirectory) isTypeScript (t_packageJson t) = Inr packageJson"
    and "cleanupOperations w isTypeScript t = (pushed, None)"
  shows "main w isTypeScript packageManager rootDirectory fs
         = (fst (start_all (fileOperationPromises w (APP_NAME rootDirectory) t packageJson @ pushed) fs),
            catch_tty (askSetupQuestions w packageManager))"
  using assms
  by (simp add: main_def Let_def try_await_all_Inr split: prod.splits)
lemma example_read:
  "readTemplateFiles (example_world u) True example_files
   = Inr \<lparr>t_env = ''SESSION_SECRET=old'', t_readme = ''RemixStack'', t_deployWorkflow = None,
          t_remixConfig = None, t_vitestConfig = None, t_packageJson = example_manifest\<rparr>"
  by (simp add: readTemplateFiles_def readFile_def example_files_def and_then_def
      EXAMPLE_ENV_PATH_def README_PATH_def PACKAGE_JSON_PATH_def readFileIfNotTypeScript_def
      example_world_def)

lemma example_update_typed:
  "\<exists>pj. updatePackageJson (example_world u) n True example_manifest = Inr pj"
  by (simp add: updatePackageJson_def updateContent_def example_manifest_def Let_def
      example_world_def example_update_def defined_def)

text \<open>
  Claim C4, as the code has it. When \<open>main\<close> has come to the interactive flow and the flow
  fails with an error, \<open>main\<close> is fulfilled if the error carries \<open>isTtyError\<close> (the
  terminal is not interactive), and is rejected with that error otherwise. The error of a
  cancelled prompt does not carry \<open>isTtyError\<close>.
\<close>

theorem main_swallows_tty_error_only:
  assumes "readTemplateFiles w isTypeScript fs = Inr t"
    and "updatePackageJson w (APP_NAME rootDirectory) isTypeScript (t_packageJson t) = Inr packageJson"
    and "cleanupOperations w isTypeScript t = (pushed, None)"
    and "askSetupQuestions w packageManager = (evs, Inl error)"
  shows "snd (main w isTypeScript packageManager rootDirectory fs)
         = (evs, if isTtyError error then Inr () else Inl error)"
  using assms
  by (simp add: main_def Let_def try_await_all_Inr catch_tty_def split: prod.splits)

text \<open>The witness: in a terminal that is not interactive, \<open>main\<close> is fulfilled.\<close>

theorem main_swallows_tty_error_only_witness:
  "snd (main (example_world (\<lambda>q. Inl tty_error)) True npm ''/home/dev/my-app'' example_files)
   = ([], Inr ())"
proof -
  let ?w = "example_world (\<lambda>q. Inl tty_error)"
  obtain pj where pj: "updatePackageJson ?w (APP_NAME ''/home/dev/my-app'') True example_manifest = Inr pj"
    using example_update_typed by blast
  have c: "cleanupOperations ?w True t = ([], None)" for t
    by (simp add: cleanupOperations_def)
  have a: "askSetupQuestions ?w npm = ([], Inl tty_error)"
    by (simp add: askSetupQuestions_def example_world_def io_bind_def io_throw_def)
  from main_swallows_tty_error_only [OF example_read _ c a, of "''/home/dev/my-app''" pj] pj
  show ?thesis by (simp add: tty_error_def)
qed

text \<open>
  Against C4 as it is worded: when the user closes the first prompt, the flow fails with
  an error without \<open>isTtyError\<close>, and \<open>main\<close> is rejected with it.
\<close>

theorem main_cancellation_counterexample:
  "isTtyError cancel_error = False
   \<and> askSetupQuestions (example_world (\<lambda>q. Inl cancel_error)) npm = ([], Inl cancel_error)
   \<and> snd (main (example_world (\<lambda>q. Inl cancel_error)) True npm ''/home/dev/my-app'' example_files)
       = ([], Inl cancel_error)"
proof -
  let ?w = "example_world (\<lambda>q. Inl cancel_error)"
  obtain pj where pj: "updatePackageJson ?w (APP_NAME ''/home/dev/my-app'') True example_manifest = Inr pj"
    using example_update_typed by blast
  have c: "cleanupOperations ?w True t = ([], None)" for t
    by (simp add: cleanupOperations_def)
  have a: "askSetupQuestions ?w npm = ([], Inl cancel_error)"
    by (simp add: askSetupQuestions_def example_world_def io_bind_def io_throw_def)
  have "isTtyError cancel_error = False" by (simp add: cancel_error_def)
  with main_reaches_flow [OF example_read _ c, of "''/home/dev/my-app''" pj npm] pj a
  show ?thesis by (simp add: catch_tty_def)
qed

subsection \<open>The package-manager command set\<close>

text \<open>
  Claim C3 at the choice \<open>yarn\<close>: the command set has an exec command, a lockfile name
  and a run-command builder, and no install-command builder.
\<close>

theorem yarn_command_set_without_install:
  "\<exists>pm. getPackageManagerCommand w yarn = ([], Inr pm)
     \<and> exec pm = Some ''yarn'' \<and> lockfile pm = Some ''yarn.lock'' \<and> run pm \<noteq> None
     \<and> install pm = None"
  by (simp add: getPackageManagerCommand_def io_return_def)

text \<open>
  The same holds for \<open>pnpm\<close>; the command set of \<open>npm\<close> has all four members. The
  interactive flow calls \<open>pm.install\<close> for every package manager: with \<open>yarn\<close> and a
  user who accepts Amplify, the call throws.
\<close>

lemma pnpm_command_set_without_install:
  "versionOutput w ''pnpm'' = Inr v \<Longrightarrow>
   \<exists>pm. getPackageManagerCommand w pnpm = ([ExecSync ''pnpm --version''], Inr pm)
     \<and> exec pm \<noteq> None \<and> lockfile pm = Some ''pnpm-lock.yaml'' \<and> run pm \<noteq> None
     \<and> install pm = None"
  by (simp add: getPackageManagerCommand_def getPackageManagerVersion_def io_return_def
      io_bind_def Let_def)

lemma npm_command_set_complete:
  "\<exists>pm. getPackageManagerCommand w npm = ([], Inr pm)
     \<and> exec pm = Some ''npx'' \<and> lockfile pm = Some ''package-lock.json'' \<and> run pm \<noteq> None
     \<and> install pm \<noteq> None"
  by (simp add: getPackageManagerCommand_def io_return_def)

lemma yarn_amplify_setup_throws:
  "askSetupQuestions (example_world user_accepts) yarn
   = ([Asked ''amplify'', Asked ''cli'', ConsoleLog ''Installing CLI globally''],
      Inl (TypeError ''pm.install is not a function''))"
  by (simp add: example_world_def user_accepts_def askSetupQuestions_def io_bind_def
      io_return_def io_throw_def getPackageManagerCommand_def answer_def call_method_def
      console_log_def installAmplify_def)

subsection \<open>The interactive flow\<close>

lemma io_bind_event: "io_bind (evs, Inr x) k = (evs @ fst (k x), snd (k x))"
  by (simp add: io_bind_def split: prod.splits)

lemma io_bind_return: "io_bind (io_return x) k = k x"
  by (simp add: io_bind_def io_return_def split: prod.splits)

lemma prompt_first_two:
  assumes "user w ''amplify'' = Inr a" and "user w ''cli'' = Inr c"
  shows "prompt w [\<lparr>q_name = ''amplify'', q_default = False\<rparr>,
                   \<lparr>q_name = ''cli'', q_default = True\<rparr>]
         = ([Asked ''amplify'', Asked ''cli''],
            Inr [(''amplify'', case a of None \<Rightarrow> False | Some b \<Rightarrow> b),
                 (''cli'', case c of None \<Rightarrow> True | Some b \<Rightarrow> b)])"
  using assms by (simp add: io_bind_def io_return_def split: option.splits)

lemma prompt_validate:
  assumes "user w ''validate'' = Inr v"
  shows "prompt w [\<lparr>q_name = ''validate'', q_default = False\<rparr>]
         = ([Asked ''validate''], Inr [(''validate'', case v of None \<Rightarrow> False | Some b \<Rightarrow> b)])"
  using assms by (simp add: io_bind_def io_return_def split: option.splits)

lemma getPackageManagerCommand_events:
  "pm = pnpm \<longrightarrow> (\<exists>ver. versionOutput w ''pnpm'' = Inr ver) \<Longrightarrow>
   \<exists>cs. getPackageManagerCommand w pm
        = (if pm = pnpm then [ExecSync ''pnpm --version''] else [], Inr cs)"
  by (cases pm)
     (auto simp: getPackageManagerCommand_def getPackageManagerVersion_def io_return_def
        io_bind_def Let_def)


lemma ask_unfold:
  assumes "user w ''amplify'' = Inr a" and "user w ''cli'' = Inr c"
  shows "askSetupQuestions w pm
      = io_bind ([Asked ''amplify'', Asked ''cli''], Inr [(''amplify'', case a of None \<Rightarrow> False | Some b \<Rightarrow> b),
                   (''cli'', case c of None \<Rightarrow> True | Some b \<Rightarrow> b)]) (\<lambda>answers.
        io_bind (getPackageManagerCommand w pm) (\<lambda>pm.
        io_bind (if answer answers ''amplify'' then installAmplify w pm answers
                 else io_return ()) (\<lambda>_.
        io_bind (prompt w [\<lparr>q_name = ''validate'', q_default = False\<rparr>]) (\<lambda>validationAnswers.
        io_bind
          (if answer validationAnswers ''validate'' then
             io_bind (console_log ''Running the validate script to make sure everything was set up properly'') (\<lambda>_.
             io_bind (call_method ''pm.run'' (run pm) ''validate'' None) (execInProject w))
           else io_return ()) (\<lambda>_.
        io_bind (call_method ''pm.run'' (run pm) ''dev'' None) (\<lambda>dev.
        console_log (readyMark @ ''Project is ready! Start development with '' @ dquote @ dev
          @ dquote)))))))"
    unfolding askSetupQuestions_def prompt_first_two [OF assms] ..

text \<open>
  Claim C6, as the code has it. The two questions, whether to use Amplify and whether to
  install its CLI globally, are put in one prompt without a condition: once the first is
  answered the second is asked, whatever the answer. When the first is answered no (or
  left at its default), nothing is logged and no install or provisioning command is run
  before the validation question: the events up to that question are the two questions
  and, for \<open>pnpm\<close>, the version query.
\<close>

theorem cli_question_is_unconditional:
  assumes "user w ''amplify'' = Inr a" and "user w ''cli'' = Inr c"
  shows "(\<exists>rest r. askSetupQuestions w pm = (Asked ''amplify'' # Asked ''cli'' # rest, r))
         \<and> (a \<noteq> Some True \<and> user w ''validate'' = Inr v
              \<and> (pm = pnpm \<longrightarrow> (\<exists>ver. versionOutput w ''pnpm'' = Inr ver))
            \<longrightarrow> (\<exists>rest r. askSetupQuestions w pm
                   = ([Asked ''amplify'', Asked ''cli'']
                      @ (if pm = pnpm then [ExecSync ''pnpm --version''] else [])
                      @ Asked ''validate'' # rest, r)))"
proof (intro conjI impI)
  let ?answers = "[(''amplify'', case a of None \<Rightarrow> False | Some b \<Rightarrow> b),
                   (''cli'', case c of None \<Rightarrow> True | Some b \<Rightarrow> b)]"
  note u = ask_unfold [OF assms, of pm]
  show "\<exists>rest r. askSetupQuestions w pm = (Asked ''amplify'' # Asked ''cli'' # rest, r)"
    by (simp only: u io_bind_event append_Cons append_Nil) blast
  assume h: "a \<noteq> Some True \<and> user w ''validate'' = Inr v
              \<and> (pm = pnpm \<longrightarrow> (\<exists>ver. versionOutput w ''pnpm'' = Inr ver))"
  then obtain cs where cs: "getPackageManagerCommand w pm
        = (if pm = pnpm then [ExecSync ''pnpm --version''] else [], Inr cs)"
    using getPackageManagerCommand_events by blast
  from h have na: "answer ?answers ''amplify'' = False"
    by (cases a) (auto simp: answer_def)
  from h have pv: "prompt w [\<lparr>q_name = ''validate'', q_default = False\<rparr>]
         = ([Asked ''validate''], Inr [(''validate'', case v of None \<Rightarrow> False | Some b \<Rightarrow> b)])"
    using prompt_validate by blast
  show "\<exists>rest r. askSetupQuestions w pm
                   = ([Asked ''amplify'', Asked ''cli'']
                      @ (if pm = pnpm then [ExecSync ''pnpm --version''] else [])
                      @ Asked ''validate'' # rest, r)"
    by (simp only: u io_bind_event cs na if_False io_bind_return pv fst_conv snd_conv
        append_Cons append_Nil append_assoc) blast
qed

text \<open>The witness: a user who declines, with \<open>npm\<close>.\<close>

theorem cli_question_is_unconditional_witness:
  "user (example_world user_declines) ''amplify'' = Inr (Some False)
   \<and> user (example_world user_declines) ''cli'' = Inr None
   \<and> user (example_world user_declines) ''validate'' = Inr (Some False)
   \<and> (\<exists>rest r. askSetupQuestions (example_world user_declines) npm
         = ([Asked ''amplify'', Asked ''cli''] @ [] @ Asked ''validate'' # rest, r))"
  using cli_question_is_unconditional [of "example_world user_declines" "Some False" None npm "Some False"]
  by (simp add: example_world_def user_declines_def)

text \<open>
  Against C6 as it is worded: the user answers no to Amplify, and the CLI question is
  asked all the same.
\<close>

theorem cli_question_asked_after_no_counterexample:
  "user (example_world user_declines) ''amplify'' = Inr (Some False)
   \<and> take 3 (fst (askSetupQuestions (example_world user_declines) npm))
       = [Asked ''amplify'', Asked ''cli'', Asked ''validate'']"
  by (simp add: example_world_def user_declines_def askSetupQuestions_def io_bind_def
      io_return_def getPackageManagerCommand_def answer_def call_method_def console_log_def)

subsection \<open>The application name\<close>

lemma inRange_set:
  "inRange lo hi c \<longleftrightarrow> c \<in> set (map char_of [of_char lo ..< Suc (of_char hi :: nat)])"
proof
  assume "inRange lo hi c"
  then have "(of_char c :: nat) \<in> {of_char lo .. of_char hi}"
    by (simp add: inRange_def)
  then have "(of_char c :: nat) \<in> set [of_char lo ..< Suc (of_char hi)]"
    by (simp only: set_upt atLeastLessThanSuc_atLeastAtMost)
  then have "char_of (of_char c :: nat) \<in> char_of ` set [of_char lo ..< Suc (of_char hi :: nat)]"
    by (rule imageI)
  then show "c \<in> set (map char_of [of_char lo ..< Suc (of_char hi :: nat)])"
    by simp
next
  assume "c \<in> set (map char_of [of_char lo ..< Suc (of_char hi :: nat)])"
  then obtain n :: nat where n: "c = char_of n" "of_char lo \<le> n" "n \<le> of_char hi"
    by auto
  have "n < 256" using n(3) nat_of_char_less_256 [of hi] by (rule le_less_trans)
  then have "n mod 256 = n" by simp
  with n have "(of_char c :: nat) = n" by simp
  with n show "inRange lo hi c" by (simp add: inRange_def)
qed

lemma class_range_lower: "map char_of [of_char CHR ''a'' ..< Suc (of_char CHR ''z'' :: nat)] = ''abcdefghijklmnopqrstuvwxyz''"
  by code_simp

lemma class_range_upper: "map char_of [of_char CHR ''A'' ..< Suc (of_char CHR ''Z'' :: nat)] = ''ABCDEFGHIJKLMNOPQRSTUVWXYZ''"
  by code_simp

lemma class_range_digit: "map char_of [of_char CHR ''0'' ..< Suc (of_char CHR ''9'' :: nat)] = ''0123456789''"
  by code_simp

lemma appNameClass_alphabet: "appNameClass c \<longleftrightarrow> c \<in> set app_name_alphabet"
proof -
  have eq: "app_name_alphabet = ''abcdefghijklmnopqrstuvwxyz'' @ ''ABCDEFGHIJKLMNOPQRSTUVWXYZ''
     @ ''0123456789'' @ [CHR ''-'', CHR ''_'']"
    unfolding app_name_alphabet_def by simp
  have "c \<in> set app_name_alphabet \<longleftrightarrow>
      c \<in> set ''abcdefghijklmnopqrstuvwxyz'' \<or> c \<in> set ''ABCDEFGHIJKLMNOPQRSTUVWXYZ''
      \<or> c \<in> set ''0123456789'' \<or> c \<in> set [CHR ''-'', CHR ''_'']"
    unfolding eq set_append Un_iff ..
  moreover have "c \<in> set [CHR ''-'', CHR ''_''] \<longleftrightarrow> c = CHR ''-'' \<or> c = CHR ''_''"
    by simp
  ultimately show ?thesis
    by (simp only: appNameClass_def inRange_set class_range_lower class_range_upper
        class_range_digit)
qed

lemma replace_not_in_class_map:
  "replace_not_in_class s = map (\<lambda>c. if c \<in> set app_name_alphabet then c else CHR ''-'') s"
  by (induction s) (simp_all add: appNameClass_alphabet)

text \<open>
  Claim C9. The application name is the base name of the root directory with every code
  unit outside \<open>[A-Za-z0-9-_]\<close> replaced by a hyphen, one hyphen for each; the directory
  \<open>My Cool App!\<close> yields \<open>My-Cool-App-\<close>.
\<close>

theorem APP_NAME_is_sanitized_basename:
  "APP_NAME rootDirectory
     = map (\<lambda>c. if c \<in> set app_name_alphabet then c else CHR ''-'') (basename rootDirectory)
   \<and> basename ''/home/dev/My Cool App!'' = ''My Cool App!''
   \<and> APP_NAME ''/home/dev/My Cool App!'' = ''My-Cool-App-''"
proof (intro conjI)
  show "APP_NAME rootDirectory
     = map (\<lambda>c. if c \<in> set app_name_alphabet then c else CHR ''-'') (basename rootDirectory)"
    by (simp add: APP_NAME_def replace_not_in_class_map)
  show b: "basename ''/home/dev/My Cool App!'' = ''My Cool App!''"
    by (simp add: basename_def isSlash_def)
  show "APP_NAME ''/home/dev/My Cool App!'' = ''My-Cool-App-''"
    unfolding APP_NAME_def b by (simp add: appNameClass_def inRange_def)
qed

subsection \<open>The environment file\<close>

lemma replace_first_line_match:
  assumes "key \<noteq> []" and "\<forall>c\<in>set key. \<not> lineTerminator c"
    and "if pre = [] then bol else lineTerminator (last pre)"
    and "\<forall>p1 p2. pre = p1 @ key @ p2 \<longrightarrow> (if p1 = [] then \<not> bol else \<not> lineTerminator (last p1))"
  shows "replace_first_line key rep bol (pre @ key @ rest)
         = pre @ rep @ dropWhile (\<lambda>x. \<not> lineTerminator x) rest"
  using assms(3,4)
proof (induction pre arbitrary: bol)
  case Nil
  obtain k ks where k: "key = k # ks" using assms(1) by (cases key) auto
  from Nil have bol by simp
  then show ?case by (simp add: k)
next
  case (Cons c pre)
  have no: "\<not> (bol \<and> prefix key ((c # pre) @ key @ rest))"
  proof
    assume a: "bol \<and> prefix key ((c # pre) @ key @ rest)"
    then consider "prefix key (c # pre)" | us where "key = (c # pre) @ us"
      unfolding prefix_append by blast
    then show False
    proof cases
      case 1
      then obtain p2 where "c # pre = [] @ key @ p2" by (auto simp: prefix_def)
      with Cons.prems(2) a show False by (metis (full_types))
    next
      case 2
      have "last (c # pre) \<in> set (c # pre)" by (rule last_in_set) simp
      with 2 have "last (c # pre) \<in> set key" by simp
      with Cons.prems(1) assms(2) show False by auto
    qed
  qed
  have 1: "if pre = [] then lineTerminator c else lineTerminator (last pre)"
    using Cons.prems(1) by (auto split: if_splits)
  have 2: "\<forall>p1 p2. pre = p1 @ key @ p2 \<longrightarrow>
      (if p1 = [] then \<not> lineTerminator c else \<not> lineTerminator (last p1))"
  proof (intro allI impI)
    fix p1 p2 assume "pre = p1 @ key @ p2"
    then have "c # pre = (c # p1) @ key @ p2" by simp
    with Cons.prems(2) have "\<not> lineTerminator (last (c # p1))" by (metis list.distinct(1))
    then show "if p1 = [] then \<not> lineTerminator c else \<not> lineTerminator (last p1)"
      by (auto split: if_splits)
  qed
  from Cons.IH [OF 1 2] no show ?case by auto
qed

lemma replace_first_line_no_match:
  "(\<forall>p1 p2. s = p1 @ key @ p2 \<longrightarrow> (if p1 = [] then \<not> bol else \<not> lineTerminator (last p1)))
   \<Longrightarrow> replace_first_line key rep bol s = s"
proof (induction s arbitrary: bol)
  case Nil
  then show ?case by simp
next
  case (Cons c s)
  have no: "\<not> (bol \<and> prefix key (c # s))"
  proof
    assume a: "bol \<and> prefix key (c # s)"
    then obtain p2 where "c # s = [] @ key @ p2" by (auto simp: prefix_def)
    with Cons.prems a show False by (metis (full_types))
  qed
  have "\<forall>p1 p2. s = p1 @ key @ p2 \<longrightarrow>
      (if p1 = [] then \<not> lineTerminator c else \<not> lineTerminator (last p1))"
  proof (intro allI impI)
    fix p1 p2 assume "s = p1 @ key @ p2"
    then have "c # s = (c # p1) @ key @ p2" by simp
    with Cons.prems have "\<not> lineTerminator (last (c # p1))" by (metis list.distinct(1))
    then show "if p1 = [] then \<not> lineTerminator c else \<not> lineTerminator (last p1)"
      by (auto split: if_splits)
  qed
  from Cons.IH [OF this] no show ?case by auto
qed

lemma dropWhile_to_line_end:
  assumes "\<forall>c\<in>set old. \<not> lineTerminator c" and "post = [] \<or> lineTerminator (hd post)"
  shows "dropWhile (\<lambda>x. \<not> lineTerminator x) (old @ post) = post"
proof -
  have "dropWhile (\<lambda>x. \<not> lineTerminator x) (old @ post) = dropWhile (\<lambda>x. \<not> lineTerminator x) post"
    using assms(1) by simp
  also have "\<dots> = post" using assms(2) by (cases post) auto
  finally show ?thesis .
qed

lemma length_toHex: "length (toHex bytes) = 2 * length bytes"
  by (induction bytes) (simp_all add: toHex_def)

lemma hexDigit_in: "hexDigit n \<in> set ''0123456789abcdef''"
proof -
  have "n mod 16 < length ''0123456789abcdef''" by simp
  then show ?thesis unfolding hexDigit_def by (rule nth_mem)
qed

lemma set_toHex: "set (toHex bytes) \<subseteq> set ''0123456789abcdef''"
  unfolding toHex_def using hexDigit_in by (induction bytes) auto

lemma getRandomString_shape:
  "length (getRandomString w n) = 2 * n
   \<and> set (getRandomString w n) \<subseteq> set ''0123456789abcdef''"
  using set_toHex by (simp add: getRandomString_def randomBytes_def length_toHex)

lemma hexValue_hexDigit: "hexValue (hexDigit n) = n mod 16"
proof -
  have "\<forall>k\<in>set [0..<16]. hexValue (''0123456789abcdef'' ! k) = k"
    by (simp add: hexValue_def upt_rec)
  moreover have "n mod 16 \<in> set [0..<16]" by simp
  ultimately show ?thesis unfolding hexDigit_def by blast
qed

text \<open>The bytes are read back from their hexadecimal writing.\<close>

lemma fromHex_toHex: "fromHex (toHex bytes) = bytes"
proof (induction bytes)
  case Nil
  show ?case by (simp add: toHex_def)
next
  case (Cons b bytes)
  have "unat b < 256" using unsigned_less [of b, where 'a = nat] by simp
  then have "unat b div 16 mod 16 = unat b div 16" by simp
  then have "16 * (unat b div 16 mod 16) + unat b mod 16 mod 16 = unat b" by simp
  then have "(of_nat (16 * (unat b div 16 mod 16) + unat b mod 16 mod 16) :: 8 word) = b"
    by simp
  with Cons show ?case by (simp add: toHex_def hexValue_hexDigit)
qed

text \<open>
  Claim C7. Let the environment file hold a line \<open>SESSION_SECRET=old\<close>: the text before
  it, \<open>pre\<close>, is empty or ends in a line terminator, \<open>old\<close> holds no line terminator,
  and the text after it, \<open>post\<close>, is empty or starts with one; and let it be the first
  such line. Then the new environment file is \<open>pre\<close>, the line
  \<open>SESSION_SECRET="secret"\<close> and \<open>post\<close>: that line is rewritten and everything else
  is kept as it was. The secret is the hexadecimal writing of the 16 bytes drawn from
  \<open>crypto.randomBytes\<close> for it: 32 hexadecimal digits, two for each byte, from which
  the 16 bytes are read back.
\<close>

theorem newEnv_rewrites_secret_line:
  assumes "env = pre @ ''SESSION_SECRET='' @ old @ post"
    and "pre = [] \<or> lineTerminator (last pre)"
    and "\<forall>c\<in>set old. \<not> lineTerminator c"
    and "post = [] \<or> lineTerminator (hd post)"
    and "\<forall>p1 p2. pre = p1 @ ''SESSION_SECRET='' @ p2 \<longrightarrow> p1 \<noteq> [] \<and> \<not> lineTerminator (last p1)"
  shows "newEnv w env
           = pre @ ''SESSION_SECRET='' @ dquote @ getRandomString w 16 @ dquote @ post
         \<and> length (getRandomString w 16) = 32
         \<and> set (getRandomString w 16) \<subseteq> set ''0123456789abcdef''
         \<and> fromHex (getRandomString w 16) = map (entropy w) [0..<16]"
proof -
  have dec: "fromHex (getRandomString w 16) = map (entropy w) [0..<16]"
    unfolding getRandomString_def randomBytes_def by (rule fromHex_toHex)
  have k: "''SESSION_SECRET='' \<noteq> []" "\<forall>c\<in>set ''SESSION_SECRET=''. \<not> lineTerminator c"
    by (simp_all add: lineTerminator_def)
  have 3: "if pre = [] then True else lineTerminator (last pre)"
    using assms(2) by auto
  have 4: "\<forall>p1 p2. pre = p1 @ ''SESSION_SECRET='' @ p2 \<longrightarrow>
      (if p1 = [] then \<not> True else \<not> lineTerminator (last p1))"
    using assms(5) by auto
  have "newEnv w env = pre @ (''SESSION_SECRET='' @ dquote @ getRandomString w 16 @ dquote)
          @ dropWhile (\<lambda>x. \<not> lineTerminator x) (old @ post)"
    unfolding newEnv_def assms(1) by (rule replace_first_line_match [OF k 3 4])
  then show ?thesis
    using dropWhile_to_line_end [OF assms(3,4)] getRandomString_shape [of w 16] dec by simp
qed

text \<open>
  The witness: the middle line of a file of three lines, with the bytes 3, 20, 37, ...
  drawn for the secret.
\<close>

lemma example_secret:
  "getRandomString (example_world u) 16 = ''031425364758697a8b9cadbecfe0f102''"
  by (simp add: getRandomString_def randomBytes_def example_world_def toHex_def hexDigit_def upt_rec)

theorem newEnv_rewrites_secret_line_witness:
  "newEnv (example_world user_declines) example_env
   = ''PORT=3000'' @ [CHR 0x0A] @ ''SESSION_SECRET='' @ dquote
     @ ''031425364758697a8b9cadbecfe0f102'' @ dquote @ [CHR 0x0A] @ ''NODE_ENV=development''
   \<and> fromHex ''031425364758697a8b9cadbecfe0f102''
     = map (entropy (example_world user_declines)) [0..<16]"
proof -
  let ?pre = "''PORT=3000'' @ [CHR 0x0A]"
  let ?old = "''super-duper-s3cret''"
  let ?post = "[CHR 0x0A] @ ''NODE_ENV=development''"
  have 1: "example_env = ?pre @ ''SESSION_SECRET='' @ ?old @ ?post"
    by (simp add: example_env_def)
  have 2: "?pre = [] \<or> lineTerminator (last ?pre)"
    by (simp add: lineTerminator_def)
  have 3: "\<forall>c\<in>set ?old. \<not> lineTerminator c"
    by (simp add: lineTerminator_def)
  have 4: "?post = [] \<or> lineTerminator (hd ?post)"
    by (simp add: lineTerminator_def)
  have 5: "\<forall>p1 p2. ?pre = p1 @ ''SESSION_SECRET='' @ p2 \<longrightarrow> p1 \<noteq> [] \<and> \<not> lineTerminator (last p1)"
  proof (intro allI impI)
    fix p1 p2 :: string
    assume "?pre = p1 @ ''SESSION_SECRET='' @ p2"
    then have "length ?pre = length (p1 @ ''SESSION_SECRET='' @ p2)" by (rule arg_cong)
    then have False by simp
    then show "p1 \<noteq> [] \<and> \<not> lineTerminator (last p1)" ..
  qed
  from newEnv_rewrites_secret_line [OF 1 2 3 4 5, of "example_world user_declines"]
  show ?thesis by (simp add: example_secret)
qed

subsection \<open>The package manifest\<close>









subsection \<open>The batch of file operations\<close>

lemma fst_start_all_Cons: "fst (start_all (op # ops) fs) = fst (start_all ops (settle op fs))"
  by (simp add: settle_def split: sum.splits prod.splits)

lemma denied_settle: "denied (settle op fs) = denied fs"
  by (cases op) (auto simp: settle_def apply_op_def split: option.splits)

lemma map_of_filter_entries:
  "map_of (filter (\<lambda>e. Q (fst e)) xs) k = (if Q k then map_of xs k else None)"
  by (induction xs) auto

lemma map_of_settle:
  "\<not> changes op q \<Longrightarrow> map_of (files (settle op fs)) q = map_of (files fs) q"
proof (cases op)
  case (WriteFile p s)
  assume "\<not> changes op q"
  with WriteFile show ?thesis
    by (auto simp: settle_def apply_op_def changes_def update_conv')
next
  case (CopyFile src dest)
  assume "\<not> changes op q"
  with CopyFile show ?thesis
    by (auto simp: settle_def apply_op_def changes_def update_conv' split: option.splits)
next
  case (Rm p recursive)
  assume n: "\<not> changes op q"
  show ?thesis
  proof (cases recursive)
    case True
    with n Rm have np: "\<not> prefix p q" by (simp add: changes_def)
    have "map_of (filter (\<lambda>e. \<not> below p e) (files fs)) q = map_of (files fs) q"
      unfolding below_def using map_of_filter_entries [of "\<lambda>k. \<not> prefix p k" "files fs" q] np
      by simp
    with Rm True show ?thesis
      by (auto simp: settle_def apply_op_def)
  next
    case False
    with n Rm have "q \<noteq> p" by (simp add: changes_def)
    with Rm False show ?thesis
      by (auto simp: settle_def apply_op_def delete_conv')
  qed
qed

lemma filter_below_update:
  "\<not> prefix r p \<Longrightarrow> filter (below r) (AList.update p s xs) = filter (below r) xs"
  by (induction xs) (auto simp: below_def)

lemma filter_below_delete:
  "\<not> prefix r p \<Longrightarrow> filter (below r) (AList.delete p xs) = filter (below r) xs"
  by (induction xs) (auto simp: below_def)

lemma filter_below_filter:
  "\<not> prefix r p \<Longrightarrow> \<not> prefix p r \<Longrightarrow>
   filter (\<lambda>e. \<not> below p e \<and> below r e) xs = filter (below r) xs"
proof (induction xs)
  case Nil
  then show ?case by simp
next
  case (Cons e xs)
  have "\<not> (prefix r (fst e) \<and> prefix p (fst e))"
    using Cons.prems by (meson prefix_same_cases)
  with Cons show ?case by (auto simp: below_def)
qed

lemma below_settle:
  "\<not> changes_below op r \<Longrightarrow>
   filter (below r) (files (settle op fs)) = filter (below r) (files fs)"
  by (cases op)
     (auto simp: settle_def apply_op_def changes_below_def filter_below_update
        filter_below_delete filter_below_filter split: option.splits)

lemma list_ex_filter: "list_ex P xs \<longleftrightarrow> filter P xs \<noteq> []"
  by (induction xs) auto

lemma changes_below_refl: "\<not> changes_below op r \<Longrightarrow> \<not> changes op r"
  by (cases op) (auto simp: changes_def changes_below_def)

lemma list_ex_below_settle:
  "\<not> changes_below op r \<Longrightarrow>
   list_ex (below r) (files (settle op fs)) = list_ex (below r) (files fs)"
  by (simp add: list_ex_filter below_settle)

lemma in_place_after: "in_place (settle op fs) op"
proof (cases op)
  case (WriteFile p s)
  then show ?thesis
    by (auto simp: in_place_def settle_def apply_op_def update_conv')
next
  case (CopyFile src dest)
  then show ?thesis
    by (auto simp: in_place_def settle_def apply_op_def update_conv' split: option.splits)
next
  case (Rm p recursive)
  have "\<not> list_ex (below p) (filter (\<lambda>e. \<not> below p e) xs)" for xs
    by (induction xs) auto
  moreover have "map_of xs p \<noteq> None \<Longrightarrow> \<not> recursive \<Longrightarrow>
      \<not> list_ex (below p) (AList.delete p xs) \<or> map_of (AList.delete p xs) p = None" for xs
    by (simp add: delete_conv')
  ultimately show ?thesis using Rm
    by (auto simp: in_place_def settle_def apply_op_def)
qed

lemma effect_after: "apply_op fs op = Inr fs' \<Longrightarrow> effect fs' op"
proof (cases op)
  case (WriteFile p s)
  assume "apply_op fs op = Inr fs'"
  with WriteFile show ?thesis
    by (auto simp: effect_def apply_op_def update_conv' split: if_splits)
next
  case (CopyFile src dest)
  assume "apply_op fs op = Inr fs'"
  with CopyFile show ?thesis
    by (auto simp: effect_def apply_op_def update_conv' split: if_splits option.splits)
next
  case (Rm p recursive)
  assume a: "apply_op fs op = Inr fs'"
  have "\<not> list_ex (below p) (filter (\<lambda>e. \<not> below p e) xs)" for xs
    by (induction xs) auto
  with a Rm show ?thesis
    by (cases recursive) (auto simp: effect_def apply_op_def delete_conv' split: if_splits)
qed

lemma in_place_kept:
  assumes "in_place fs op" and "separate op op'"
  shows "in_place (settle op' fs) op"
proof (cases op)
  case (WriteFile p s)
  with assms map_of_settle [of op' p fs] show ?thesis
    by (auto simp: in_place_def separate_def denied_settle)
next
  case (CopyFile src dest)
  with assms map_of_settle [of op' src fs] map_of_settle [of op' dest fs] show ?thesis
    by (auto simp: in_place_def separate_def denied_settle)
next
  case (Rm p recursive)
  with assms have n: "\<not> changes_below op' p" by (simp add: separate_def)
  from Rm assms(1) list_ex_below_settle [OF n, of fs]
    map_of_settle [OF changes_below_refl [OF n], of fs]
  show ?thesis
    by (auto simp: in_place_def denied_settle)
qed

lemma effect_kept:
  assumes "effect fs op" and "separate op op'"
  shows "effect (settle op' fs) op"
proof (cases op)
  case (WriteFile p s)
  with assms map_of_settle [of op' p fs] show ?thesis
    by (auto simp: effect_def separate_def)
next
  case (CopyFile src dest)
  with assms map_of_settle [of op' src fs] map_of_settle [of op' dest fs] show ?thesis
    by (auto simp: effect_def separate_def)
next
  case (Rm p recursive)
  with assms have n: "\<not> changes_below op' p" by (simp add: separate_def)
  from Rm assms(1) list_ex_below_settle [OF n, of fs]
    map_of_settle [OF changes_below_refl [OF n], of fs]
  show ?thesis
    by (auto simp: effect_def)
qed

lemma in_place_kept_all:
  "in_place fs op \<Longrightarrow> list_all (separate op) ops \<Longrightarrow> in_place (fst (start_all ops fs)) op"
proof (induction ops arbitrary: fs)
  case Nil
  then show ?case by simp
next
  case (Cons op' ops)
  from Cons.prems have "in_place (settle op' fs) op" "list_all (separate op) ops"
    by (simp_all add: in_place_kept)
  then have "in_place (fst (start_all ops (settle op' fs))) op" by (rule Cons.IH)
  then show ?case by (simp only: fst_start_all_Cons)
qed

lemma effect_kept_all:
  "effect fs op \<Longrightarrow> list_all (separate op) ops \<Longrightarrow> effect (fst (start_all ops fs)) op"
proof (induction ops arbitrary: fs)
  case Nil
  then show ?case by simp
next
  case (Cons op' ops)
  from Cons.prems have "effect (settle op' fs) op" "list_all (separate op) ops"
    by (simp_all add: effect_kept)
  then have "effect (fst (start_all ops (settle op' fs))) op" by (rule Cons.IH)
  then show ?case by (simp only: fst_start_all_Cons)
qed

lemma all_in_place:
  "independent ops \<Longrightarrow> op \<in> set ops \<Longrightarrow> in_place (fst (start_all ops fs)) op"
proof (induction ops arbitrary: fs)
  case Nil
  then show ?case by simp
next
  case (Cons op' ops)
  show ?case
  proof (cases "op = op'")
    case True
    have "in_place (settle op' fs) op'" by (rule in_place_after)
    with Cons.prems(1) have "in_place (fst (start_all ops (settle op' fs))) op'"
      by (simp add: in_place_kept_all)
    with True show ?thesis by (simp only: fst_start_all_Cons)
  next
    case False
    with Cons.prems have "independent ops" "op \<in> set ops" by simp_all
    then have "in_place (fst (start_all ops (settle op' fs))) op" by (rule Cons.IH)
    then show ?thesis by (simp only: fst_start_all_Cons)
  qed
qed

lemma settle_in_place: "in_place fs op \<Longrightarrow> settle op fs = fs"
  by (cases op)
     (auto simp: in_place_def settle_def apply_op_def update_triv split: option.splits)

lemma start_all_in_place:
  "\<forall>op\<in>set ops. in_place fs op \<Longrightarrow> fst (start_all ops fs) = fs"
proof (induction ops)
  case Nil
  then show ?case by simp
next
  case (Cons op ops)
  then have "settle op fs = fs" by (simp add: settle_in_place)
  with Cons show ?case by (simp only: fst_start_all_Cons) simp
qed

lemma start_all_idempotent:
  assumes "independent ops"
  shows "fst (start_all ops (fst (start_all ops fs))) = fst (start_all ops fs)"
  using all_in_place [OF assms] by (intro start_all_in_place) blast

lemma start_all_Cons_pair:
  "start_all (op # ops) fs
   = (fst (start_all ops (settle op fs)),
      (case apply_op fs op of Inl e \<Rightarrow> Some e | Inr fs1 \<Rightarrow> None) # snd (start_all ops (settle op fs)))"
  by (simp add: settle_def split: sum.splits prod.splits)

lemma fulfilled_effect:
  "independent ops \<Longrightarrow> i < length ops \<Longrightarrow> snd (start_all ops fs) ! i = None \<Longrightarrow>
   effect (fst (start_all ops fs)) (ops ! i)"
proof (induction ops arbitrary: fs i)
  case Nil
  then show ?case by simp
next
  case (Cons op ops)
  show ?case
  proof (cases i)
    case 0
    with Cons.prems(3) obtain fs1 where fs1: "apply_op fs op = Inr fs1"
      by (auto simp: start_all_Cons_pair simp del: start_all.simps(2) split: sum.splits)
    then have "effect (settle op fs) op" by (simp add: settle_def effect_after)
    with Cons.prems(1) have "effect (fst (start_all ops (settle op fs))) op"
      by (simp add: effect_kept_all)
    with 0 show ?thesis by (simp only: fst_start_all_Cons nth_Cons_0)
  next
    case (Suc j)
    with Cons.prems have "independent ops" "j < length ops"
      "snd (start_all ops (settle op fs)) ! j = None"
      by (simp_all add: start_all_Cons_pair del: start_all.simps(2))
    then have "effect (fst (start_all ops (settle op fs))) (ops ! j)" by (rule Cons.IH)
    with Suc show ?thesis by (simp only: fst_start_all_Cons nth_Cons_Suc)
  qed
qed

lemma rm_in_place_fails: "in_place fs (Rm p r) \<Longrightarrow> \<exists>e. apply_op fs (Rm p r) = Inl e"
  by (auto simp: in_place_def apply_op_def)

lemma settled_at_fixpoint:
  "\<forall>op\<in>set ops. in_place fs op \<Longrightarrow> i < length ops \<Longrightarrow>
   snd (start_all ops fs) ! i = (case apply_op fs (ops ! i) of Inl e \<Rightarrow> Some e | Inr fs1 \<Rightarrow> None)"
proof (induction ops arbitrary: i)
  case Nil
  then show ?case by simp
next
  case (Cons op ops)
  then have s: "settle op fs = fs" by (simp add: settle_in_place)
  show ?case
  proof (cases i)
    case 0
    then show ?thesis by (simp add: start_all_Cons_pair del: start_all.simps(2))
  next
    case (Suc j)
    with Cons.prems have "\<forall>op\<in>set ops. in_place fs op" "j < length ops" by simp_all
    then have "snd (start_all ops fs) ! j
        = (case apply_op fs (ops ! j) of Inl e \<Rightarrow> Some e | Inr fs1 \<Rightarrow> None)"
      by (rule Cons.IH)
    with Suc s show ?thesis by (simp add: start_all_Cons_pair del: start_all.simps(2))
  qed
qed

lemma cleanup_pushed:
  assumes "cleanupOperations w isTypeScript t = (pushed, e)"
  shows "\<exists>x y z n. pushed = take n [WriteFile DEPLOY_WORKFLOW_PATH x,
           WriteFile REMIX_CONFIG_PATH y, WriteFile (VITEST_CONFIG_PATH False) z]"
proof (cases isTypeScript)
  case True
  with assms have "pushed = []" by (simp add: cleanupOperations_def)
  then have "pushed = take 0 [WriteFile DEPLOY_WORKFLOW_PATH [],
           WriteFile REMIX_CONFIG_PATH [], WriteFile (VITEST_CONFIG_PATH False) []]" by simp
  then show ?thesis by blast
next
  case False
  have d: "cleanupDeployWorkflow w (t_deployWorkflow t) DEPLOY_WORKFLOW_PATH = Inr ops1 \<Longrightarrow>
      \<exists>x. ops1 = [WriteFile DEPLOY_WORKFLOW_PATH x]" for ops1
    by (auto simp: cleanupDeployWorkflow_def Let_def split: option.splits)
  have r: "cleanupRemixConfig (t_remixConfig t) REMIX_CONFIG_PATH = Inr ops2 \<Longrightarrow>
      \<exists>y. ops2 = [WriteFile REMIX_CONFIG_PATH y]" for ops2
    by (auto simp: cleanupRemixConfig_def Let_def split: option.splits)
  have v: "cleanupVitestConfig (t_vitestConfig t) (VITEST_CONFIG_PATH False) = Inr ops3 \<Longrightarrow>
      \<exists>z. ops3 = [WriteFile (VITEST_CONFIG_PATH False) z]" for ops3
    by (auto simp: cleanupVitestConfig_def Let_def split: option.splits)
  let ?l = "\<lambda>x y z. [WriteFile DEPLOY_WORKFLOW_PATH x,
           WriteFile REMIX_CONFIG_PATH y, WriteFile (VITEST_CONFIG_PATH False) z]"
  from assms False consider "pushed = []"
    | x where "pushed = [WriteFile DEPLOY_WORKFLOW_PATH x]"
    | x y where "pushed = [WriteFile DEPLOY_WORKFLOW_PATH x, WriteFile REMIX_CONFIG_PATH y]"
    | x y z where "pushed = ?l x y z"
    using d r v
    by (fastforce simp: cleanupOperations_def split: sum.splits)
  then show ?thesis
  proof cases
    case 1
    then have "pushed = take 0 (?l [] [] [])" by simp
    then show ?thesis by blast
  next
    case 2
    then have "pushed = take 1 (?l x [] [])" by simp
    then show ?thesis by blast
  next
    case 3
    then have "pushed = take 2 (?l x y [])" by simp
    then show ?thesis by blast
  next
    case 4
    then have "pushed = take 3 (?l x y z)" by simp
    then show ?thesis by blast
  qed
qed

lemma independent_operations:
  "independent (fileOperationPromises w appName t packageJson
     @ take n [WriteFile DEPLOY_WORKFLOW_PATH x, WriteFile REMIX_CONFIG_PATH y,
               WriteFile (VITEST_CONFIG_PATH False) z])"
proof -
  consider "n = 0" | "n = 1" | "n = 2" | "n \<ge> 3" by linarith
  then show ?thesis
    by cases
      (simp_all add: fileOperationPromises_def separate_def changes_def changes_below_def
        ENV_PATH_def README_PATH_def PACKAGE_JSON_PATH_def DEPLOY_WORKFLOW_PATH_def
        REMIX_CONFIG_PATH_def VITEST_CONFIG_PATH_def numeral_2_eq_2)
qed

text \<open>
  The order in which operations that are apart complete does not matter: the file at a
  path is what the one successful operation that changes it leaves there, or what it was.
  The operations of \<open>main\<close> are apart.
\<close>

lemma settle_failed: "\<not> succeeds op fs \<Longrightarrow> settle op fs = fs"
  by (simp add: succeeds_def settle_def split: sum.splits)

lemma map_of_removed:
  fixes xs :: "(path \<times> string) list"
  shows "prefix p q \<Longrightarrow> map_of (filter (\<lambda>e. \<not> below p e) xs) q = None"
  unfolding below_def using map_of_filter_entries [of "\<lambda>k. \<not> prefix p k" xs q] by simp

lemma map_of_settle_changed:
  assumes "succeeds op fs" and "changes op q"
  shows "map_of (files (settle op fs)) q = written op fs"
proof (cases op)
  case (WriteFile p s)
  with assms show ?thesis
    by (auto simp: succeeds_def settle_def apply_op_def changes_def written_def update_conv'
        split: if_splits)
next
  case (CopyFile src dest)
  with assms show ?thesis
    by (auto simp: succeeds_def settle_def apply_op_def changes_def written_def update_conv'
        split: if_splits option.splits)
next
  case (Rm p recursive)
  show ?thesis
  proof (cases recursive)
    case True
    with assms Rm have "prefix p q" by (simp add: changes_def)
    then have "map_of (filter (\<lambda>e. \<not> below p e) (files fs)) q = None"
      by (rule map_of_removed)
    with assms Rm True show ?thesis
      by (auto simp: succeeds_def settle_def apply_op_def written_def split: if_splits)
  next
    case False
    with assms Rm have "q = p" by (simp add: changes_def)
    with assms Rm False show ?thesis
      by (auto simp: succeeds_def settle_def apply_op_def written_def delete_conv'
          split: if_splits)
  qed
qed


lemma separate_disjoint: "separate a b \<Longrightarrow> changes a q \<Longrightarrow> \<not> changes b q"
proof (cases a)
  case (WriteFile p s)
  assume "separate a b" "changes a q"
  with WriteFile show ?thesis by (simp add: separate_def changes_def)
next
  case (CopyFile src dest)
  assume "separate a b" "changes a q"
  with CopyFile show ?thesis by (simp add: separate_def changes_def)
next
  case (Rm r recursive)
  assume s: "separate a b" and c: "changes a q"
  from s Rm have n: "\<not> changes_below b r" by (simp add: separate_def)
  show ?thesis
  proof (cases recursive)
    case False
    with c Rm have "q = r" by (simp add: changes_def)
    with n show ?thesis by (simp add: changes_below_refl)
  next
    case True
    with c Rm have rq: "prefix r q" by (simp add: changes_def)
    show ?thesis
    proof
      assume cb: "changes b q"
      have "changes_below b r"
      proof (cases b)
        case (WriteFile p s)
        with cb rq show ?thesis by (simp add: changes_def changes_below_def)
      next
        case (CopyFile src dest)
        with cb rq show ?thesis by (simp add: changes_def changes_below_def)
      next
        case (Rm r' rec')
        with cb have "prefix r' q" by (cases rec') (auto simp: changes_def)
        with rq have "prefix r r' \<or> prefix r' r" by (rule prefix_same_cases)
        with Rm show ?thesis by (simp add: changes_below_def)
      qed
      with n show False ..
    qed
  qed
qed

lemma succeeds_iff:
  "succeeds op fs =
     (case op of
        WriteFile p s \<Rightarrow> p \<notin> set (denied fs)
      | CopyFile src dest \<Rightarrow> map_of (files fs) src \<noteq> None \<and> dest \<notin> set (denied fs)
      | Rm p recursive \<Rightarrow>
          list_ex (below p) (files fs) \<and> p \<notin> set (denied fs)
          \<and> (recursive \<or> map_of (files fs) p \<noteq> None))"
  by (cases op) (auto simp: succeeds_def apply_op_def split: option.splits)

lemma succeeds_settle: "separate a b \<Longrightarrow> succeeds a (settle b fs) = succeeds a fs"
proof (cases a)
  case (WriteFile p s)
  then show ?thesis by (simp add: succeeds_iff denied_settle)
next
  case (CopyFile src dest)
  assume "separate a b"
  with CopyFile have "\<not> changes b src" by (simp add: separate_def)
  then have "map_of (files (settle b fs)) src = map_of (files fs) src" by (rule map_of_settle)
  with CopyFile show ?thesis by (simp add: succeeds_iff denied_settle)
next
  case (Rm p recursive)
  assume "separate a b"
  with Rm have n: "\<not> changes_below b p" by (simp add: separate_def)
  from Rm list_ex_below_settle [OF n, of fs] map_of_settle [OF changes_below_refl [OF n], of fs]
  show ?thesis by (simp add: succeeds_iff denied_settle)
qed

lemma written_settle: "separate a b \<Longrightarrow> written a (settle b fs) = written a fs"
  by (cases a) (auto simp: written_def separate_def map_of_settle)

lemma files_after_all:
  assumes "apart ops"
  shows "(\<forall>op\<in>set ops. succeeds op fs \<and> changes op q
            \<longrightarrow> map_of (files (fst (start_all ops fs))) q = written op fs)
         \<and> ((\<forall>op\<in>set ops. \<not> (succeeds op fs \<and> changes op q))
            \<longrightarrow> map_of (files (fst (start_all ops fs))) q = map_of (files fs) q)"
  using assms
proof (induction ops arbitrary: fs)
  case Nil
  then show ?case by simp
next
  case (Cons b rest)
  let ?fs1 = "settle b fs"
  let ?end = "map_of (files (fst (start_all rest ?fs1))) q"
  from Cons.prems have ar: "apart rest"
    and sep: "\<forall>a\<in>set rest. separate a b \<and> separate b a"
    by (auto simp: apart_def)
  note IH = Cons.IH [OF ar, of ?fs1]
  have same: "\<forall>a\<in>set rest. succeeds a ?fs1 = succeeds a fs \<and> written a ?fs1 = written a fs"
    using sep by (simp add: succeeds_settle written_settle)
  have none: "\<not> (succeeds b fs \<and> changes b q) \<Longrightarrow> map_of (files ?fs1) q = map_of (files fs) q"
    by (cases "succeeds b fs") (simp_all add: map_of_settle settle_failed)
  have A: "map_of (files (fst (start_all (b # rest) fs))) q = written op fs"
    if "op \<in> set (b # rest)" "succeeds op fs" "changes op q" for op
  proof (cases "op = b")
    case True
    with that sep have "\<forall>a\<in>set rest. \<not> changes a q"
      by (metis separate_disjoint)
    with IH have "?end = map_of (files ?fs1) q" by blast
    also have "\<dots> = written b fs" using that True by (simp add: map_of_settle_changed)
    finally show ?thesis using True by (simp only: fst_start_all_Cons)
  next
    case False
    with that have "op \<in> set rest" by simp
    with that same have "succeeds op ?fs1 \<and> changes op q" by simp
    with IH \<open>op \<in> set rest\<close> have "?end = written op ?fs1" by blast
    with same \<open>op \<in> set rest\<close> show ?thesis by (simp only: fst_start_all_Cons)
  qed
  have B: "map_of (files (fst (start_all (b # rest) fs))) q = map_of (files fs) q"
    if "\<forall>op\<in>set (b # rest). \<not> (succeeds op fs \<and> changes op q)"
  proof -
    from that same have "\<forall>op\<in>set rest. \<not> (succeeds op ?fs1 \<and> changes op q)" by simp
    with IH have "?end = map_of (files ?fs1) q" by blast
    also have "\<dots> = map_of (files fs) q" using that none by simp
    finally show ?thesis by (simp only: fst_start_all_Cons)
  qed
  from A B show ?case by blast
qed

lemma denied_start_all: "denied (fst (start_all ops fs)) = denied fs"
  by (induction ops arbitrary: fs) (simp_all add: fst_start_all_Cons denied_settle del: start_all.simps(2))

lemma order_irrelevant:
  assumes "apart ops" and "distinct ops'" and "set ops' = set ops"
  shows "map_of (files (fst (start_all ops' fs))) = map_of (files (fst (start_all ops fs)))
         \<and> denied (fst (start_all ops' fs)) = denied (fst (start_all ops fs))"
proof -
  from assms have a': "apart ops'" by (simp add: apart_def)
  have "map_of (files (fst (start_all ops' fs))) q = map_of (files (fst (start_all ops fs))) q" for q
  proof (cases "\<exists>op\<in>set ops. succeeds op fs \<and> changes op q")
    case True
    then obtain op where op: "op \<in> set ops" "succeeds op fs" "changes op q" by blast
    with files_after_all [OF assms(1), of fs q] files_after_all [OF a', of fs q] assms(3)
    show ?thesis by simp
  next
    case False
    with files_after_all [OF assms(1), of fs q] files_after_all [OF a', of fs q] assms(3)
    show ?thesis by simp
  qed
  then show ?thesis by (auto simp: denied_start_all)
qed

lemma apart_operations:
  "apart (fileOperationPromises w appName t packageJson
     @ take n [WriteFile DEPLOY_WORKFLOW_PATH x, WriteFile REMIX_CONFIG_PATH y,
               WriteFile (VITEST_CONFIG_PATH False) z])"
proof -
  consider "n = 0" | "n = 1" | "n = 2" | "n \<ge> 3" by linarith
  then show ?thesis
    by cases
      (simp_all add: apart_def fileOperationPromises_def separate_def changes_def
        changes_below_def ENV_PATH_def README_PATH_def PACKAGE_JSON_PATH_def
        DEPLOY_WORKFLOW_PATH_def REMIX_CONFIG_PATH_def VITEST_CONFIG_PATH_def numeral_2_eq_2)
qed

lemma operations_in_any_order:
  assumes "cleanupOperations w isTypeScript t = (pushed, e)"
    and "ops = fileOperationPromises w appName t packageJson @ pushed"
    and "distinct ops'" and "set ops' = set ops"
  shows "map_of (files (fst (start_all ops' fs))) = map_of (files (fst (start_all ops fs)))
         \<and> denied (fst (start_all ops' fs)) = denied (fst (start_all ops fs))"
proof -
  obtain x y z n where "pushed = take n [WriteFile DEPLOY_WORKFLOW_PATH x,
           WriteFile REMIX_CONFIG_PATH y, WriteFile (VITEST_CONFIG_PATH False) z]"
    using cleanup_pushed [OF assms(1)] by blast
  then have "apart ops"
    unfolding assms(2) by (simp only: apart_operations)
  then show ?thesis using assms(3,4) by (rule order_irrelevant)
qed

lemma fst_catch_tty: "fst (catch_tty m) = fst m"
  by (cases m) (auto simp: catch_tty_def split: sum.splits)

lemma example_read_plain:
  "readTemplateFiles (example_world u) False example_files
   = Inr \<lparr>t_env = ''SESSION_SECRET=old'', t_readme = ''RemixStack'',
          t_deployWorkflow = Some example_workflow,
          t_remixConfig = Some ''server.ts'', t_vitestConfig = Some ''setup-test-env.ts'',
          t_packageJson = example_manifest\<rparr>"
  by (simp add: readTemplateFiles_def readFile_def example_files_def and_then_def
      EXAMPLE_ENV_PATH_def README_PATH_def PACKAGE_JSON_PATH_def readFileIfNotTypeScript_def
      DEPLOY_WORKFLOW_PATH_def REMIX_CONFIG_PATH_def VITEST_CONFIG_PATH_def
      example_world_def)

lemma example_app_name: "APP_NAME ''/home/dev/my-app'' = ''my-app''"
  by (simp add: APP_NAME_def basename_def isSlash_def appNameClass_def inRange_def)

lemma example_new_env:
  "newEnv (example_world u) ''SESSION_SECRET=old''
   = ''SESSION_SECRET='' @ dquote @ ''031425364758697a8b9cadbecfe0f102'' @ dquote"
  by (simp add: newEnv_def example_secret lineTerminator_def)

lemma example_cleanup:
  "cleanupOperations (example_world u) False
     \<lparr>t_env = ''SESSION_SECRET=old'', t_readme = ''RemixStack'',
      t_deployWorkflow = Some example_workflow,
      t_remixConfig = Some ''server.ts'', t_vitestConfig = Some ''setup-test-env.ts'',
      t_packageJson = example_manifest\<rparr>
   = ([WriteFile DEPLOY_WORKFLOW_PATH ''deploy workflow'',
       WriteFile REMIX_CONFIG_PATH ''server.js'',
       WriteFile (VITEST_CONFIG_PATH False) ''setup-test-env.js''], None)"
  by (simp add: cleanupOperations_def cleanupDeployWorkflow_def cleanupRemixConfig_def
      cleanupVitestConfig_def example_workflow_def example_world_def Let_def)

lemma example_flow:
  "askSetupQuestions (example_world user_declines) npm
   = ([Asked ''amplify'', Asked ''cli'', Asked ''validate'',
       ConsoleLog (readyMark @ ''Project is ready! Start development with '' @ dquote
         @ ''npm run dev '' @ dquote)], Inr ())"
  by (simp add: example_world_def user_declines_def askSetupQuestions_def io_bind_def
      io_return_def getPackageManagerCommand_def answer_def call_method_def console_log_def
      dashdash_args_def truthy_def)

lemma example_operations_eq:
  assumes "updatePackageJson (example_world u) ''my-app'' False example_manifest = Inr pj"
  shows "fileOperationPromises (example_world u) ''my-app'' example_template_plain pj
     @ [WriteFile DEPLOY_WORKFLOW_PATH ''deploy workflow'',
        WriteFile REMIX_CONFIG_PATH ''server.js'',
        WriteFile (VITEST_CONFIG_PATH False) ''setup-test-env.js'']
   = example_operations"
proof -
  have "pj_name pj = ''my-app''"
    using assms
    by (auto simp: updatePackageJson_def updateContent_def example_manifest_def Let_def
        example_world_def example_update_def defined_def removeUnusedDependencies_def)
  then show ?thesis
    using example_new_env [of u]
    by (simp add: fileOperationPromises_def example_operations_def example_template_plain_def
      ENV_PATH_def README_PATH_def PACKAGE_JSON_PATH_def DEPLOY_WORKFLOW_PATH_def
      REMIX_CONFIG_PATH_def VITEST_CONFIG_PATH_def example_world_def)
qed

lemma example_run:
  "start_all example_operations example_files
   = (\<lparr>files =
        [([''.env.example''], ''SESSION_SECRET=old''),
         ([''README.md''], ''RemixStack''),
         ([''package.json''], ''my-app''),
         ([''remix.init'', ''gitignore''], ''node_modules''),
         ([''.github'', ''workflows'', ''deploy.yml''], ''deploy workflow''),
         ([''remix.config.js''], ''server.js''),
         ([''vitest.config.js''], ''setup-test-env.js''),
         ([''.env''], ''SESSION_SECRET='' @ dquote @ ''031425364758697a8b9cadbecfe0f102'' @ dquote),
         ([''.gitignore''], ''node_modules'')],
      denied = [[''README.md'']]\<rparr>,
      [None, Some EACCES, None, None, None, None,
       Some (ENOENT ''no such file or directory''), None, None, None])"
  by (simp add: example_operations_def example_files_def apply_op_def below_def)

lemma example_update_plain:
  "\<exists>pj. updatePackageJson (example_world u) ''my-app'' False example_manifest = Inr pj"
  by (simp add: updatePackageJson_def updateContent_def example_manifest_def Let_def
      example_world_def example_update_def defined_def removeUnusedDependencies_def)

text \<open>
  Among operations that are apart, an operation is fulfilled in the batch exactly when it
  succeeds on the files as they were: whether another one fails makes no difference.
\<close>

lemma settled_succeeds:
  "apart ops \<Longrightarrow> i < length ops \<Longrightarrow>
   (snd (start_all ops fs) ! i = None) = succeeds (ops ! i) fs"
proof (induction ops arbitrary: fs i)
  case Nil
  then show ?case by simp
next
  case (Cons b rest)
  from Cons.prems(1) have ar: "apart rest"
    and sep: "\<forall>a\<in>set rest. separate a b"
    by (auto simp: apart_def)
  show ?case
  proof (cases i)
    case 0
    then show ?thesis
      by (simp add: start_all_Cons_pair succeeds_def del: start_all.simps(2) split: sum.splits)
  next
    case (Suc j)
    with Cons.prems(2) have j: "j < length rest" by simp
    then have "rest ! j \<in> set rest" by simp
    with sep have "succeeds (rest ! j) (settle b fs) = succeeds (rest ! j) fs"
      by (simp add: succeeds_settle)
    with Cons.IH [OF ar j, of "settle b fs"] Suc show ?thesis
      by (simp add: start_all_Cons_pair del: start_all.simps(2))
  qed
qed

text \<open>
  Claim C5. Let \<open>main\<close> have read its files and built its operations \<open>ops\<close>. Whatever
  the files are, and so whichever operations fail: \<open>main\<close> leaves the files the
  operations leave, its events are those of the interactive flow and no others (nothing
  is logged for a failure), and its result is that of the flow, so no failure of an
  operation aborts it; awaiting the batch inside \<open>try\<close> gives no error. No operation is
  cancelled because another failed: each one is fulfilled exactly when it succeeds on the
  files as \<open>main\<close> found them. And none is rolled back: every operation that succeeds on
  those files has its effect in the files at the end.
\<close>

theorem file_operation_failures_are_swallowed:
  assumes "readTemplateFiles w isTypeScript fs = Inr t"
    and "updatePackageJson w (APP_NAME rootDirectory) isTypeScript (t_packageJson t) = Inr packageJson"
    and "cleanupOperations w isTypeScript t = (pushed, None)"
    and "ops = fileOperationPromises w (APP_NAME rootDirectory) t packageJson @ pushed"
  shows "main w isTypeScript packageManager rootDirectory fs
           = (fst (start_all ops fs), fst (askSetupQuestions w packageManager),
              snd (catch_tty (askSetupQuestions w packageManager)))
         \<and> try_await_all (snd (start_all ops fs)) = Inr ()
         \<and> (\<forall>i<length ops. (snd (start_all ops fs) ! i = None) = succeeds (ops ! i) fs)
         \<and> (\<forall>i<length ops. succeeds (ops ! i) fs
               \<longrightarrow> effect (fst (start_all ops fs)) (ops ! i))"
proof (intro conjI allI impI)
  show "main w isTypeScript packageManager rootDirectory fs
           = (fst (start_all ops fs), fst (askSetupQuestions w packageManager),
              snd (catch_tty (askSetupQuestions w packageManager)))"
    unfolding main_reaches_flow [OF assms(1,2,3)] assms(4)
    by (simp add: fst_catch_tty prod_eq_iff)
  show "try_await_all (snd (start_all ops fs)) = Inr ()"
    by (rule try_await_all_Inr)
  obtain x y z n where pushed: "pushed = take n [WriteFile DEPLOY_WORKFLOW_PATH x,
           WriteFile REMIX_CONFIG_PATH y, WriteFile (VITEST_CONFIG_PATH False) z]"
    using cleanup_pushed [OF assms(3)] by blast
  then have ind: "independent ops"
    unfolding assms(4) by (simp only: independent_operations)
  from pushed have ap: "apart ops"
    unfolding assms(4) by (simp only: apart_operations)
  show s: "(snd (start_all ops fs) ! i = None) = succeeds (ops ! i) fs"
    if "i < length ops" for i
    using ap that by (rule settled_succeeds)
  fix i assume i: "i < length ops" and "succeeds (ops ! i) fs"
  with s have "snd (start_all ops fs) ! i = None" by simp
  with ind i show "effect (fst (start_all ops fs)) (ops ! i)"
    by (rule fulfilled_effect)
qed

text \<open>
  The witness: in the example project the write of \<open>README.md\<close>, the second operation,
  is denied. The third, the write of \<open>package.json\<close>, succeeds on the files as they were:
  it is fulfilled and the file holds the manifest at the end; and the flow runs to its end.
\<close>

theorem file_operation_failures_are_swallowed_witness:
  "main (example_world user_declines) False npm ''/home/dev/my-app'' example_files
   = (fst (start_all example_operations example_files),
      [Asked ''amplify'', Asked ''cli'', Asked ''validate'',
       ConsoleLog (readyMark @ ''Project is ready! Start development with '' @ dquote
         @ ''npm run dev '' @ dquote)],
      Inr ())
   \<and> snd (start_all example_operations example_files) ! 1 = Some EACCES
   \<and> example_operations ! 2 = WriteFile [''package.json''] ''my-app''
   \<and> succeeds (example_operations ! 2) example_files
   \<and> snd (start_all example_operations example_files) ! 2 = None
   \<and> effect (fst (start_all example_operations example_files)) (example_operations ! 2)
   \<and> map_of (files (fst (start_all example_operations example_files))) [''package.json'']
       = Some ''my-app''"
proof -
  let ?w = "example_world user_declines"
  obtain pj where pj: "updatePackageJson ?w ''my-app'' False example_manifest = Inr pj"
    using example_update_plain by blast
  have r: "readTemplateFiles ?w False example_files = Inr example_template_plain"
    by (simp add: example_read_plain example_template_plain_def)
  have u: "updatePackageJson ?w (APP_NAME ''/home/dev/my-app'') False
             (t_packageJson example_template_plain) = Inr pj"
    using pj by (simp add: example_app_name example_template_plain_def)
  have c: "cleanupOperations ?w False example_template_plain
     = ([WriteFile DEPLOY_WORKFLOW_PATH ''deploy workflow'',
       WriteFile REMIX_CONFIG_PATH ''server.js'',
       WriteFile (VITEST_CONFIG_PATH False) ''setup-test-env.js''], None)"
    by (simp add: example_cleanup example_template_plain_def)
  have o: "example_operations
     = fileOperationPromises ?w (APP_NAME ''/home/dev/my-app'') example_template_plain pj
       @ [WriteFile DEPLOY_WORKFLOW_PATH ''deploy workflow'',
       WriteFile REMIX_CONFIG_PATH ''server.js'',
       WriteFile (VITEST_CONFIG_PATH False) ''setup-test-env.js'']"
    using example_operations_eq [OF pj] by (simp add: example_app_name)
  have s: "snd (start_all example_operations example_files) ! 1 = Some EACCES"
    "map_of (files (fst (start_all example_operations example_files))) [''package.json'']
       = Some ''my-app''"
    by (simp_all add: example_run)
  have e: "example_operations ! 2 = WriteFile [''package.json''] ''my-app''"
    "2 < length example_operations"
    by (simp_all add: example_operations_def)
  have a: "succeeds (WriteFile [''package.json''] ''my-app'') example_files"
    by (simp add: succeeds_def apply_op_def example_files_def)
  note all = file_operation_failures_are_swallowed [OF r u c o, of npm]
  from all e(2)
  have "(snd (start_all example_operations example_files) ! 2 = None)
          = succeeds (example_operations ! 2) example_files"
    by blast
  moreover from all e(2)
  have "succeeds (example_operations ! 2) example_files
          \<longrightarrow> effect (fst (start_all example_operations example_files)) (example_operations ! 2)"
    by blast
  moreover from all
  have "main ?w False npm ''/home/dev/my-app'' example_files
          = (fst (start_all example_operations example_files), fst (askSetupQuestions ?w npm),
             snd (catch_tty (askSetupQuestions ?w npm)))"
    by (rule conjunct1)
  ultimately show ?thesis using s e a
    by (simp add: example_flow catch_tty_def)
qed

text \<open>
  Claim C10. Running the operations of \<open>main\<close> a second time, with the same contents and
  paths, on the files the first run left, leaves those files as they are; awaiting the
  second batch inside \<open>try\<close> gives no error; and every removal fails in the second run.
\<close>

theorem file_operations_idempotent:
  assumes "cleanupOperations w isTypeScript t = (pushed, e)"
    and "ops = fileOperationPromises w appName t packageJson @ pushed"
  shows "fst (start_all ops (fst (start_all ops fs))) = fst (start_all ops fs)
         \<and> try_await_all (snd (start_all ops (fst (start_all ops fs)))) = Inr ()
         \<and> (\<forall>i<length ops. (\<exists>p r. ops ! i = Rm p r)
               \<longrightarrow> snd (start_all ops (fst (start_all ops fs))) ! i \<noteq> None)"
proof (intro conjI allI impI)
  obtain x y z n where "pushed = take n [WriteFile DEPLOY_WORKFLOW_PATH x,
           WriteFile REMIX_CONFIG_PATH y, WriteFile (VITEST_CONFIG_PATH False) z]"
    using cleanup_pushed [OF assms(1)] by blast
  then have ind: "independent ops"
    unfolding assms(2) by (simp only: independent_operations)
  then show "fst (start_all ops (fst (start_all ops fs))) = fst (start_all ops fs)"
    by (rule start_all_idempotent)
  show "try_await_all (snd (start_all ops (fst (start_all ops fs)))) = Inr ()"
    by (rule try_await_all_Inr)
  fix i assume i: "i < length ops" and rm: "\<exists>p r. ops ! i = Rm p r"
  let ?fs1 = "fst (start_all ops fs)"
  have fp: "\<forall>op\<in>set ops. in_place ?fs1 op"
    using all_in_place [OF ind] by blast
  from rm obtain p r where pr: "ops ! i = Rm p r" by blast
  with fp i have "in_place ?fs1 (Rm p r)" by (metis nth_mem)
  then obtain err where "apply_op ?fs1 (Rm p r) = Inl err"
    using rm_in_place_fails by blast
  with settled_at_fixpoint [OF fp i] pr
  show "snd (start_all ops ?fs1) ! i \<noteq> None" by simp
qed

text \<open>
  The witness: in the example project the issue-template directory is removed by the first
  run, and its removal fails in the second, which leaves the files as they are.
\<close>

theorem file_operations_idempotent_witness:
  "fst (start_all example_operations (fst (start_all example_operations example_files)))
     = fst (start_all example_operations example_files)
   \<and> example_operations ! 4 = Rm [''.github'', ''ISSUE_TEMPLATE''] True
   \<and> snd (start_all example_operations example_files) ! 4 = None
   \<and> snd (start_all example_operations (fst (start_all example_operations example_files))) ! 4
       \<noteq> None"
proof -
  let ?w = "example_world user_declines"
  obtain pj where pj: "updatePackageJson ?w ''my-app'' False example_manifest = Inr pj"
    using example_update_plain by blast
  have c: "cleanupOperations ?w False example_template_plain
     = ([WriteFile DEPLOY_WORKFLOW_PATH ''deploy workflow'',
       WriteFile REMIX_CONFIG_PATH ''server.js'',
       WriteFile (VITEST_CONFIG_PATH False) ''setup-test-env.js''], None)"
    by (simp add: example_cleanup example_template_plain_def)
  have o: "example_operations
     = fileOperationPromises ?w ''my-app'' example_template_plain pj
       @ [WriteFile DEPLOY_WORKFLOW_PATH ''deploy workflow'',
       WriteFile REMIX_CONFIG_PATH ''server.js'',
       WriteFile (VITEST_CONFIG_PATH False) ''setup-test-env.js'']"
    using example_operations_eq [OF pj] by simp
  have e: "example_operations ! 4 = Rm [''.github'', ''ISSUE_TEMPLATE''] True"
    "4 < length example_operations"
    by (simp_all add: example_operations_def)
  have s: "snd (start_all example_operations example_files) ! 4 = None"
    by (simp add: example_run)
  from file_operations_idempotent [OF c o, of example_files] e s show ?thesis
    by auto
qed

end
